theory Spec2Isabelle
  imports Complex_Main "HOL-Library.AList" "HOL-Library.Char_ord" "HOL-Library.List_Lexorder"
begin

section \<open>Python values and exceptions\<close>

text \<open>
  The program handles decoded JSON throughout: the cache file, the replies of the remote
  service and the dictionaries built in memory. A decoded value is \<open>None\<close>, a \<open>bool\<close>,
  an \<open>int\<close>, a \<open>str\<close>, a \<open>list\<close> or a \<open>dict\<close>; a \<open>dict\<close> keeps its keys in
  insertion order and is an association list that is read with \<open>map_of\<close> and written
  with \<open>AList.update\<close> (an existing key keeps its place, a new key goes last).
  Numbers with a fraction do not occur in the documents handled here and are not part
  of the type. Strings are lists of code points below 256.
\<close>

datatype json =
    JNull
  | JBool bool
  | JInt int
  | JStr string
  | JList "json list"
  | JObj "(string \<times> json) list"

type_synonym dict = "(string \<times> json) list"

datatype error =
    KeyError
  | TypeError
  | AttributeError
  | ValueError
  | ZeroDivisionError
  | TransportError
  | UnicodeDecodeError
  | RecursionError
  | OSError

text \<open>Truth value of an object, as \<open>if x\<close> and \<open>not x\<close> take it.\<close>

fun truthy :: "json \<Rightarrow> bool" where
  "truthy JNull = False"
| "truthy (JBool b) = b"
| "truthy (JInt n) = (n \<noteq> 0)"
| "truthy (JStr s) = (s \<noteq> [])"
| "truthy (JList xs) = (xs \<noteq> [])"
| "truthy (JObj d) = (d \<noteq> [])"

text \<open>\<open>x == n\<close> for an \<open>int\<close> constant \<open>n\<close>: \<open>True\<close> and \<open>False\<close> are the integers 1 and 0.\<close>

fun py_eq_int :: "json \<Rightarrow> int \<Rightarrow> bool" where
  "py_eq_int (JInt m) n = (m = n)"
| "py_eq_int (JBool b) n = ((if b then 1 else 0) = n)"
| "py_eq_int _ n = False"

text \<open>\<open>d.get(k, default)\<close> on a \<open>dict\<close>.\<close>

definition dict_get :: "dict \<Rightarrow> string \<Rightarrow> json \<Rightarrow> json" where
  "dict_get d k dflt = (case map_of d k of None \<Rightarrow> dflt | Some v \<Rightarrow> v)"

text \<open>\<open>x.get(k, default)\<close> on any object: only a \<open>dict\<close> has the method.\<close>

fun py_get :: "json \<Rightarrow> string \<Rightarrow> json \<Rightarrow> error + json" where
  "py_get (JObj d) k dflt = Inr (dict_get d k dflt)"
| "py_get _ k dflt = Inl AttributeError"

text \<open>
  \<open>x[k]\<close> with a string key: a missing key of a \<open>dict\<close> is a KeyError, a string or a
  list does not take a string index, the other objects are not subscriptable.
\<close>

fun py_item :: "json \<Rightarrow> string \<Rightarrow> error + json" where
  "py_item (JObj d) k = (case map_of d k of None \<Rightarrow> Inl KeyError | Some v \<Rightarrow> Inr v)"
| "py_item _ k = Inl TypeError"

section \<open>The world outside the process\<close>

text \<open>
  What the process sees of the cache file \<open>.cache-runtime/stats.json\<close>, by what
  \<open>os.path.exists\<close>, \<open>open\<close> and \<open>json.load\<close> do with it:
  \<^item> \<open>Missing\<close>: \<open>os.path.exists\<close> is false;
  \<^item> \<open>Malformed\<close>: the file opens and its bytes are UTF-8, but the text is not a JSON
    document, so that \<open>json.load\<close> raises \<open>json.JSONDecodeError\<close>;
  \<^item> \<open>Unreadable err\<close>: \<open>open\<close> or \<open>json.load\<close> raises another exception:
    \<open>UnicodeDecodeError\<close> for bytes that are not UTF-8, \<open>RecursionError\<close> for brackets
    nested too deep, \<open>ValueError\<close> for an integer literal with more digits than the
    interpreter converts, \<open>OSError\<close> for a file that cannot be opened;
  \<^item> \<open>Parsed v\<close>: \<open>json.load\<close> decodes the text to \<open>v\<close> (\<open>json.dump\<close> followed by
    \<open>json.load\<close> gives the value back).

  The world also counts the effects performed so far (\<open>ticks\<close>, the logical time) and
  keeps the paths handed to the resource-path query, oldest first.
\<close>

datatype file_state = Missing | Malformed | Unreadable error | Parsed json

record world =
  cache_file :: file_state
  ticks :: nat
  fetched :: "string list"

text \<open>
  A \<open>datetime\<close> is a point on the time line, counted in microseconds, that either
  carries an offset (aware) or does not (naive).
\<close>

datatype pydt = Naive int | Aware int

text \<open>
  The surroundings of one run: what \<open>datetime.utcnow().isoformat()\<close> prints at each
  logical time, what the resource-path query returns (or raises) for a path at each
  logical time, what \<open>datetime.fromisoformat\<close> makes of a text (\<open>None\<close> where it raises
  ValueError), and the text that an f-string puts for an object that is not a string.
\<close>

record env =
  utcnow_isoformat :: "nat \<Rightarrow> string"
  rest_reply :: "nat \<Rightarrow> string \<Rightarrow> error + json"
  fromisoformat :: "string \<Rightarrow> pydt option"
  format_other :: "json \<Rightarrow> string"

section \<open>cache_utils.py\<close>

definition CACHE_VERSION :: int where
  "CACHE_VERSION = 1"

definition utc_now_iso :: "env \<Rightarrow> world \<Rightarrow> string \<times> world" where
  "utc_now_iso e w = (utcnow_isoformat e (ticks w) @ ''Z'', w\<lparr>ticks := Suc (ticks w)\<rparr>)"

text \<open>
  \<open>load_cache\<close>: the \<open>try\<close> around \<open>json.load\<close> has the one handler
  \<open>except json.JSONDecodeError: return None\<close>; any other exception leaves
  \<open>load_cache\<close>. The decoded value is then asked for \<open>.get("version")\<close>, which only a
  \<open>dict\<close> has.
\<close>

definition load_cache :: "world \<Rightarrow> error + dict option" where
  "load_cache w =
     (case cache_file w of
        Missing \<Rightarrow> Inr None
      | Malformed \<Rightarrow> Inr None
      | Unreadable err \<Rightarrow> Inl err
      | Parsed data \<Rightarrow>
          (case py_get data ''version'' JNull of
             Inl err \<Rightarrow> Inl err
           | Inr v \<Rightarrow>
               (if \<not> py_eq_int v CACHE_VERSION then Inr None
                else (case data of JObj d \<Rightarrow> Inr (Some d) | _ \<Rightarrow> Inl AttributeError))))"

text \<open>\<open>{"version": CACHE_VERSION, "updated_at": now, **data}\<close>: the keys of \<open>data\<close> are
  written over the two leading ones, in the order of \<open>data\<close>.\<close>

definition payload :: "string \<Rightarrow> dict \<Rightarrow> dict" where
  "payload now data =
     foldl (\<lambda>acc (k, v). AList.update k v acc)
       [(''version'', JInt CACHE_VERSION), (''updated_at'', JStr now)] data"

definition save_cache :: "env \<Rightarrow> dict \<Rightarrow> world \<Rightarrow> world" where
  "save_cache e data w =
     (case utc_now_iso e w of
        (now, w1) \<Rightarrow> w1\<lparr>cache_file := Parsed (JObj (payload now data)), ticks := Suc (ticks w1)\<rparr>)"

definition get_lines_changed :: "dict option \<Rightarrow> json" where
  "get_lines_changed cache =
     (case cache of
        None \<Rightarrow> JNull
      | Some d \<Rightarrow> (if d = [] then JNull else dict_get d ''lines_changed'' JNull))"

definition set_lines_changed :: "dict option \<Rightarrow> json \<Rightarrow> json \<Rightarrow> json \<Rightarrow> dict" where
  "set_lines_changed cache additions deletions last_commit_date =
     AList.update ''lines_changed''
       (JObj [(''additions'', additions), (''deletions'', deletions),
              (''last_commit_date'', last_commit_date)])
       (case cache of None \<Rightarrow> [] | Some d \<Rightarrow> d)"

definition get_recent_commits :: "dict option \<Rightarrow> json" where
  "get_recent_commits cache =
     (case cache of
        None \<Rightarrow> JNull
      | Some d \<Rightarrow> (if d = [] then JNull else dict_get d ''recent_commits'' JNull))"

definition set_recent_commits :: "env \<Rightarrow> dict option \<Rightarrow> json \<Rightarrow> world \<Rightarrow> dict \<times> world" where
  "set_recent_commits e cache fingerprints w =
     (case utc_now_iso e w of
        (now, w1) \<Rightarrow>
          (AList.update ''recent_commits''
             (JObj [(''fingerprints'', fingerprints), (''last_checked'', JStr now)])
             (case cache of None \<Rightarrow> [] | Some d \<Rightarrow> d),
           w1))"

section \<open>Strings\<close>

text \<open>\<open>str.isspace\<close> and \<open>str.lower\<close> on code points below 256.\<close>

definition is_space :: "char \<Rightarrow> bool" where
  "is_space c =
     (let n = (of_char c :: nat)
      in (9 \<le> n \<and> n \<le> 13) \<or> (28 \<le> n \<and> n \<le> 32) \<or> n = 133 \<or> n = 160)"

definition lower_char :: "char \<Rightarrow> char" where
  "lower_char c =
     (let n = (of_char c :: nat)
      in if (65 \<le> n \<and> n \<le> 90) \<or> (192 \<le> n \<and> n \<le> 222 \<and> n \<noteq> 215)
         then char_of (n + 32) else c)"

definition lower :: "string \<Rightarrow> string" where
  "lower s = map lower_char s"

definition strip :: "string \<Rightarrow> string" where
  "strip s = rev (dropWhile is_space (rev (dropWhile is_space s)))"

text \<open>\<open>s.split(sep)\<close> for a separator of one character: never an empty list.\<close>

fun split_on :: "char \<Rightarrow> string \<Rightarrow> string list" where
  "split_on c [] = [[]]"
| "split_on c (x # xs) =
     (if x = c then [] # split_on c xs
      else (case split_on c xs of [] \<Rightarrow> [[x]] | p # ps \<Rightarrow> (x # p) # ps))"

text \<open>\<open>s.rsplit(sep, 1)\<close> for a separator of one character: one or two pieces.\<close>

definition rsplit1 :: "char \<Rightarrow> string \<Rightarrow> string list" where
  "rsplit1 c s =
     (if c \<in> set s
      then [rev (tl (dropWhile (\<lambda>x. x \<noteq> c) (rev s))), rev (takeWhile (\<lambda>x. x \<noteq> c) (rev s))]
      else [s])"

text \<open>\<open>a, b = xs\<close>: anything but two items is a ValueError.\<close>

fun unpack2 :: "'a list \<Rightarrow> error + ('a \<times> 'a)" where
  "unpack2 [a, b] = Inr (a, b)"
| "unpack2 _ = Inl ValueError"

text \<open>\<open>s.replace("Z", "+00:00")\<close>.\<close>

definition replace_Z :: "string \<Rightarrow> string" where
  "replace_Z s = concat (map (\<lambda>c. if c = CHR ''Z'' then ''+00:00'' else [c]) s)"

text \<open>\<open>needle in s\<close> for two strings: \<open>needle\<close> occurs as a block of \<open>s\<close>.\<close>

fun is_prefix :: "string \<Rightarrow> string \<Rightarrow> bool" where
  "is_prefix [] ys = True"
| "is_prefix (x # xs) [] = False"
| "is_prefix (x # xs) (y # ys) = (x = y \<and> is_prefix xs ys)"

fun occurs_in :: "string \<Rightarrow> string \<Rightarrow> bool" where
  "occurs_in needle [] = (needle = [])"
| "occurs_in needle (y # ys) = (is_prefix needle (y # ys) \<or> occurs_in needle ys)"

section \<open>generate\_images.py: the flag that drops forked contributions\<close>

text \<open>
  \<open>os.getenv\<close> gives \<open>None\<close> for a variable that is not set. The flag is
  \<open>not not raw and raw.strip().lower() != "false"\<close>.
\<close>

definition ignore_forked_repos_flag :: "string option \<Rightarrow> bool" where
  "ignore_forked_repos_flag raw =
     (case raw of
        None \<Rightarrow> False
      | Some s \<Rightarrow> s \<noteq> [] \<and> lower (strip s) \<noteq> ''false'')"

section \<open>github\_stats.py: the query client\<close>

text \<open>
  One HTTP exchange, as the client sees it: the call raises (no value), or it gives a
  response with a status code whose body decodes to a value or does not decode.
\<close>

record http_response =
  status :: nat
  body :: "json option"

datatype transport = Aiohttp | Requests

datatype event =
    Request transport string dict
  | Sleep nat

text \<open>
  The two transports of the structured-query endpoint, by the text of the query.
\<close>

record graphql_net =
  aiohttp_post :: "string \<Rightarrow> http_response option"
  requests_post :: "string \<Rightarrow> http_response option"

text \<open>
  \<open>decoded\<close> is what \<open>r.json()\<close> gives if the exchange gets that far without raising.
  \<open>Queries.query\<close>: the first transport is inside \<open>try\<close>; the second one is inside the
  handler, where nothing catches what it raises. A decoded \<open>None\<close> falls through to the
  final \<open>return dict()\<close>. The second component lists the transports used, in order.
\<close>

definition decoded :: "http_response option \<Rightarrow> json option" where
  "decoded exchange = (case exchange of None \<Rightarrow> None | Some r \<Rightarrow> body r)"

definition query :: "graphql_net \<Rightarrow> string \<Rightarrow> (error + json) \<times> transport list" where
  "query net generated_query =
     (case decoded (aiohttp_post net generated_query) of
        Some result \<Rightarrow>
          (if result \<noteq> JNull then (Inr result, [Aiohttp]) else (Inr (JObj []), [Aiohttp]))
      | None \<Rightarrow>
          (case requests_post net generated_query of
             None \<Rightarrow> (Inl TransportError, [Aiohttp, Requests])
           | Some r \<Rightarrow>
               (case body r of
                  None \<Rightarrow> (Inl ValueError, [Aiohttp, Requests])
                | Some result \<Rightarrow>
                    (if result \<noteq> JNull then (Inr result, [Aiohttp, Requests])
                     else (Inr (JObj []), [Aiohttp, Requests])))))"

text \<open>
  The two transports of the resource-path endpoint, by the number of the attempt
  (from 0) and the path requested.
\<close>

record rest_net =
  aiohttp_get :: "nat \<Rightarrow> string \<Rightarrow> http_response option"
  requests_get :: "nat \<Rightarrow> string \<Rightarrow> http_response option"

text \<open>
  The handler of \<open>Queries.query_rest\<close>: status 202 sleeps and goes on with the loop,
  status 200 returns the decoded body whatever it is, any other status goes on with the
  loop at once. The result is \<open>None\<close> for "go on", and the events are those to append.
\<close>

definition rest_fallback ::
  "rest_net \<Rightarrow> nat \<Rightarrow> string \<Rightarrow> dict \<Rightarrow> (error + json) option \<times> event list" where
  "rest_fallback net i path params =
     (case requests_get net i path of
        None \<Rightarrow> (Some (Inl TransportError), [Request Requests path params])
      | Some r \<Rightarrow>
          (if status r = 202 then (None, [Request Requests path params, Sleep 2])
           else if status r = 200 then
             (case body r of
                None \<Rightarrow> (Some (Inl ValueError), [Request Requests path params])
              | Some result \<Rightarrow> (Some (Inr result), [Request Requests path params]))
           else (None, [Request Requests path params])))"

text \<open>One pass through the body of \<open>for _ in range(60)\<close>, for the path already stripped.\<close>

definition rest_attempt ::
  "rest_net \<Rightarrow> nat \<Rightarrow> string \<Rightarrow> dict \<Rightarrow> (error + json) option \<times> event list" where
  "rest_attempt net i path params =
     (case aiohttp_get net i path of
        None \<Rightarrow>
          (case rest_fallback net i path params of
             (res, evs) \<Rightarrow> (res, Request Aiohttp path params # evs))
      | Some r \<Rightarrow>
          (if status r = 202 then (None, [Request Aiohttp path params, Sleep 2])
           else
             (case body r of
                None \<Rightarrow>
                  (case rest_fallback net i path params of
                     (res, evs) \<Rightarrow> (res, Request Aiohttp path params # evs))
              | Some result \<Rightarrow>
                  (if result \<noteq> JNull then (Some (Inr result), [Request Aiohttp path params])
                   else (None, [Request Aiohttp path params])))))"

text \<open>
  The loop, by the number of passes left. Each pass strips one leading \<open>/\<close> from the
  path it got; when no pass is left the result is \<open>dict()\<close>.
\<close>

definition drop_slash :: "string \<Rightarrow> string" where
  "drop_slash path = (if is_prefix ''/'' path then tl path else path)"

fun query_rest_loop ::
  "rest_net \<Rightarrow> nat \<Rightarrow> nat \<Rightarrow> string \<Rightarrow> dict \<Rightarrow> event list \<Rightarrow> (error + json) \<times> event list" where
  "query_rest_loop net 0 i path params trace = (Inr (JObj []), trace)"
| "query_rest_loop net (Suc left) i path params trace =
     (let path1 = drop_slash path
      in case rest_attempt net i path1 params of
           (Some res, evs) \<Rightarrow> (res, trace @ evs)
         | (None, evs) \<Rightarrow> query_rest_loop net left (Suc i) path1 params (trace @ evs))"

text \<open>
  What a trace shows: the number of passes (each pass starts with one request of the
  first transport), the number of requests of both transports, and the lengths of the
  pauses in seconds, in order.
\<close>

definition polls :: "event list \<Rightarrow> nat" where
  "polls trace =
     length (filter (\<lambda>ev. case ev of Request t p ps \<Rightarrow> t = Aiohttp | Sleep n \<Rightarrow> False) trace)"

definition requests_sent :: "event list \<Rightarrow> nat" where
  "requests_sent trace =
     length (filter (\<lambda>ev. case ev of Request t p ps \<Rightarrow> True | Sleep n \<Rightarrow> False) trace)"

definition pauses :: "event list \<Rightarrow> nat list" where
  "pauses trace = concat (map (\<lambda>ev. case ev of Request t p ps \<Rightarrow> [] | Sleep n \<Rightarrow> [n]) trace)"

text \<open>An event that is not a request with other parameters than \<open>params\<close>.\<close>

definition sent_with :: "dict \<Rightarrow> event \<Rightarrow> bool" where
  "sent_with params ev = (case ev of Request t p ps \<Rightarrow> ps = params | Sleep n \<Rightarrow> True)"

text \<open>
  The path that pass \<open>j\<close> (from 0) requests: \<open>if path.startswith("/"): path = path[1:]\<close>
  is inside the loop, so every pass strips one leading \<open>/\<close> from what the pass before
  left.
\<close>

definition path_at :: "string \<Rightarrow> nat \<Rightarrow> string" where
  "path_at path j = (drop_slash ^^ Suc j) path"

text \<open>
  Pass \<open>i\<close> gets a response with status 202: from the first transport, or from the
  second one, which is asked when the first one raises or its body does not decode.
\<close>

definition fallback_202 :: "rest_net \<Rightarrow> nat \<Rightarrow> string \<Rightarrow> bool" where
  "fallback_202 net i p =
     (case requests_get net i p of None \<Rightarrow> False | Some r \<Rightarrow> status r = 202)"

definition answered_202 :: "rest_net \<Rightarrow> nat \<Rightarrow> string \<Rightarrow> bool" where
  "answered_202 net i p =
     (case aiohttp_get net i p of
        None \<Rightarrow> fallback_202 net i p
      | Some r \<Rightarrow> status r = 202 \<or> (body r = None \<and> fallback_202 net i p))"

definition query_rest :: "rest_net \<Rightarrow> string \<Rightarrow> dict option \<Rightarrow> (error + json) \<times> event list" where
  "query_rest net path params =
     query_rest_loop net 60 0 path (case params of None \<Rightarrow> [] | Some d \<Rightarrow> d) []"

section \<open>github\_stats.py: arithmetic, iteration and membership on decoded values\<close>

fun py_num :: "json \<Rightarrow> int option" where
  "py_num (JInt n) = Some n"
| "py_num (JBool b) = Some (if b then 1 else 0)"
| "py_num _ = None"

text \<open>\<open>n += x\<close> and \<open>n + x\<close> for an \<open>int\<close> \<open>n\<close>: \<open>x\<close> must be a number.\<close>

definition int_add :: "int \<Rightarrow> json \<Rightarrow> error + int" where
  "int_add n x = (case py_num x of None \<Rightarrow> Inl TypeError | Some m \<Rightarrow> Inr (n + m))"

text \<open>\<open>for x in v\<close>: a \<open>dict\<close> gives its keys, a string its characters.\<close>

fun py_iter :: "json \<Rightarrow> error + json list" where
  "py_iter (JList xs) = Inr xs"
| "py_iter (JObj d) = Inr (map (\<lambda>kv. JStr (fst kv)) d)"
| "py_iter (JStr s) = Inr (map (\<lambda>c. JStr [c]) s)"
| "py_iter _ = Inl TypeError"

text \<open>
  \<open>x += y\<close> for any two objects: numbers add, strings join, a list is extended by
  anything that can be iterated; all else is a TypeError.
\<close>

definition py_iadd :: "json \<Rightarrow> json \<Rightarrow> error + json" where
  "py_iadd x y =
     (case (py_num x, py_num y) of
        (Some m, Some n) \<Rightarrow> Inr (JInt (m + n))
      | _ \<Rightarrow>
          (case (x, y) of
             (JStr a, JStr b) \<Rightarrow> Inr (JStr (a @ b))
           | (JList xs, _) \<Rightarrow>
               (case py_iter y of Inl err \<Rightarrow> Inl TypeError | Inr ys \<Rightarrow> Inr (JList (xs @ ys)))
           | _ \<Rightarrow> Inl TypeError))"

text \<open>Members of a \<open>set\<close> must be hashable; they are compared with \<open>==\<close>.\<close>

fun py_hashable :: "json \<Rightarrow> bool" where
  "py_hashable (JList xs) = False"
| "py_hashable (JObj d) = False"
| "py_hashable _ = True"

definition py_eq :: "json \<Rightarrow> json \<Rightarrow> bool" where
  "py_eq a b = (case (py_num a, py_num b) of (Some m, Some n) \<Rightarrow> m = n | _ \<Rightarrow> a = b)"

section \<open>github\_stats.py: repository discovery\<close>

record config =
  username :: string
  ignore_forked_repos :: bool
  exclude_repos :: "string list"
  exclude_langs :: "string list"

text \<open>
  An entry of \<open>Stats._languages\<close>. \<open>prop\<close> is a float in the program; it is carried here
  as the real number that the float approximates, so the rounding of the division and of
  the product is not part of the model.
\<close>

record lang_entry =
  lang_size :: json
  lang_occurrences :: int
  lang_color :: json
  lang_prop :: "real option"

text \<open>The fields that \<open>get_stats\<close> sets. The set \<open>_repos\<close> is kept in insertion order.\<close>

record stats =
  stats_name :: json
  stargazers :: int
  forks :: int
  languages :: "(string \<times> lang_entry) list"
  repos :: "json list"

text \<open>The body of \<open>for lang in repo.get("languages", {}).get("edges", [])\<close>.\<close>

definition add_language ::
  "config \<Rightarrow> json \<Rightarrow> (string \<times> lang_entry) list \<Rightarrow> error + (string \<times> lang_entry) list" where
  "add_language c lang langs =
     (case py_get lang ''node'' (JObj []) of
        Inl err \<Rightarrow> Inl err
      | Inr node \<Rightarrow>
     (case py_get node ''name'' (JStr ''Other'') of
        Inl err \<Rightarrow> Inl err
      | Inr nm \<Rightarrow>
     (case nm of
        JStr name \<Rightarrow>
          (if lower name \<in> set (map lower (exclude_langs c)) then Inr langs
           else
             (case py_get lang ''size'' (JInt 0) of
                Inl err \<Rightarrow> Inl err
              | Inr sz \<Rightarrow>
                  (case map_of langs name of
                     Some entry \<Rightarrow>
                       (case py_iadd (lang_size entry) sz of
                          Inl err \<Rightarrow> Inl err
                        | Inr grown \<Rightarrow>
                            Inr (AList.update name
                                   (entry\<lparr>lang_size := grown,
                                          lang_occurrences := lang_occurrences entry + 1\<rparr>)
                                   langs))
                   | None \<Rightarrow>
                       Inr (AList.update name
                              \<lparr>lang_size = sz, lang_occurrences = 1,
                               lang_color = dict_get (case node of JObj d \<Rightarrow> d | _ \<Rightarrow> []) ''color'' JNull,
                               lang_prop = None\<rparr>
                              langs))))
      | _ \<Rightarrow> Inl AttributeError)))"

fun add_languages ::
  "config \<Rightarrow> json list \<Rightarrow> (string \<times> lang_entry) list \<Rightarrow> error + (string \<times> lang_entry) list" where
  "add_languages c [] langs = Inr langs"
| "add_languages c (lang # rest) langs =
     (case add_language c lang langs of
        Inl err \<Rightarrow> Inl err
      | Inr langs1 \<Rightarrow> add_languages c rest langs1)"

text \<open>The body of \<open>for repo in repos\<close>.\<close>

definition add_repo :: "config \<Rightarrow> json \<Rightarrow> stats \<Rightarrow> error + stats" where
  "add_repo c repo st =
     (if repo = JNull then Inr st
      else
     (case py_get repo ''nameWithOwner'' JNull of
        Inl err \<Rightarrow> Inl err
      | Inr name \<Rightarrow>
     (if \<not> py_hashable name then Inl TypeError
      else if list_ex (\<lambda>x. py_eq x name) (repos st) \<or> name \<in> set (map JStr (exclude_repos c))
      then Inr st
      else
     (case py_get repo ''stargazers'' JNull of
        Inl err \<Rightarrow> Inl err
      | Inr sg \<Rightarrow>
     (case py_get sg ''totalCount'' (JInt 0) of
        Inl err \<Rightarrow> Inl err
      | Inr cnt \<Rightarrow>
     (case int_add (stargazers st) cnt of
        Inl err \<Rightarrow> Inl err
      | Inr stars \<Rightarrow>
     (case py_get repo ''forkCount'' (JInt 0) of
        Inl err \<Rightarrow> Inl err
      | Inr fc \<Rightarrow>
     (case int_add (forks st) fc of
        Inl err \<Rightarrow> Inl err
      | Inr fks \<Rightarrow>
     (case py_get repo ''languages'' (JObj []) of
        Inl err \<Rightarrow> Inl err
      | Inr ls \<Rightarrow>
     (case py_get ls ''edges'' (JList []) of
        Inl err \<Rightarrow> Inl err
      | Inr es \<Rightarrow>
     (case py_iter es of
        Inl err \<Rightarrow> Inl err
      | Inr edges \<Rightarrow>
     (case add_languages c edges (languages st) of
        Inl err \<Rightarrow> Inl err
      | Inr langs \<Rightarrow>
          Inr (st\<lparr>repos := repos st @ [name], stargazers := stars, forks := fks,
                 languages := langs\<rparr>)))))))))))))"

fun add_repos :: "config \<Rightarrow> json list \<Rightarrow> stats \<Rightarrow> error + stats" where
  "add_repos c [] st = Inr st"
| "add_repos c (repo # rest) st =
     (case add_repo c repo st of
        Inl err \<Rightarrow> Inl err
      | Inr st1 \<Rightarrow> add_repos c rest st1)"

text \<open>\<open>edge.get("pageInfo", {}).get(key, default)\<close>.\<close>

definition page_info :: "json \<Rightarrow> string \<Rightarrow> json \<Rightarrow> error + json" where
  "page_info edge key dflt =
     (case py_get edge ''pageInfo'' (JObj []) of
        Inl err \<Rightarrow> Inl err
      | Inr info \<Rightarrow> py_get info key dflt)"

text \<open>
  One pass through the body of \<open>while True\<close> after the query has returned
  \<open>raw_results\<close>: the new fields, and the two cursors of the next query when either edge
  reports a further page (\<open>None\<close> is \<open>break\<close>).
\<close>

definition page_step ::
  "config \<Rightarrow> json \<Rightarrow> json \<Rightarrow> json \<Rightarrow> stats \<Rightarrow> error + (stats \<times> (json \<times> json) option)" where
  "page_step c raw_results next_owned next_contrib st =
     (case py_get raw_results ''data'' (JObj []) of
        Inl err \<Rightarrow> Inl err
      | Inr data \<Rightarrow>
     (case py_get data ''viewer'' (JObj []) of
        Inl err \<Rightarrow> Inl err
      | Inr viewer \<Rightarrow>
     (case py_get viewer ''name'' JNull of
        Inl err \<Rightarrow> Inl err
      | Inr nm \<Rightarrow>
     (case py_get viewer ''login'' (JStr ''No Name'') of
        Inl err \<Rightarrow> Inl err
      | Inr login \<Rightarrow>
     (case py_get viewer ''repositoriesContributedTo'' (JObj []) of
        Inl err \<Rightarrow> Inl err
      | Inr contrib_repos \<Rightarrow>
     (case py_get viewer ''repositories'' (JObj []) of
        Inl err \<Rightarrow> Inl err
      | Inr owned_repos \<Rightarrow>
     (case py_get owned_repos ''nodes'' (JList []) of
        Inl err \<Rightarrow> Inl err
      | Inr owned_nodes \<Rightarrow>
     (case (if ignore_forked_repos c then Inr owned_nodes
            else (case py_get contrib_repos ''nodes'' (JList []) of
                    Inl err \<Rightarrow> Inl err
                  | Inr contrib_nodes \<Rightarrow> py_iadd owned_nodes contrib_nodes)) of
        Inl err \<Rightarrow> Inl err
      | Inr all_nodes \<Rightarrow>
     (case py_iter all_nodes of
        Inl err \<Rightarrow> Inl err
      | Inr rs \<Rightarrow>
     (case add_repos c rs (st\<lparr>stats_name := (if nm = JNull then login else nm)\<rparr>) of
        Inl err \<Rightarrow> Inl err
      | Inr st1 \<Rightarrow>
     (case page_info owned_repos ''hasNextPage'' (JBool False) of
        Inl err \<Rightarrow> Inl err
      | Inr owned_more \<Rightarrow>
     (case (if truthy owned_more then Inr owned_more
            else page_info contrib_repos ''hasNextPage'' (JBool False)) of
        Inl err \<Rightarrow> Inl err
      | Inr further \<Rightarrow>
          (if truthy further then
             (case page_info owned_repos ''endCursor'' next_owned of
                Inl err \<Rightarrow> Inl err
              | Inr oc \<Rightarrow>
                  (case page_info contrib_repos ''endCursor'' next_contrib of
                     Inl err \<Rightarrow> Inl err
                   | Inr cc \<Rightarrow> Inr (st1, Some (oc, cc))))
           else Inr (st1, None))))))))))))))"

text \<open>
  \<open>Queries.repos_overview\<close> puts a cursor between quotes unless it is \<open>None\<close>: any
  other object than a string is a TypeError.
\<close>

fun cursor_ok :: "json \<Rightarrow> bool" where
  "cursor_ok JNull = True"
| "cursor_ok (JStr s) = True"
| "cursor_ok _ = False"

text \<open>
  The \<open>while True\<close> loop of \<open>get_stats\<close>. The structured query is given by what it
  returns to the query number \<open>i\<close> (from 0) built from two cursors. The loop has no bound
  of its own: \<open>None\<close> is "still running when the fuel was spent". The last argument keeps
  the cursors of the queries made so far.
\<close>

fun get_stats_loop ::
  "config \<Rightarrow> (nat \<Rightarrow> json \<Rightarrow> json \<Rightarrow> error + json) \<Rightarrow> nat \<Rightarrow> json \<Rightarrow> json \<Rightarrow> stats \<Rightarrow>
   (json \<times> json) list \<Rightarrow> (error + (stats \<times> (json \<times> json) list)) option" where
  "get_stats_loop c q 0 next_owned next_contrib st asked = None"
| "get_stats_loop c q (Suc fuel) next_owned next_contrib st asked =
     (if \<not> cursor_ok next_owned \<or> \<not> cursor_ok next_contrib then Some (Inl TypeError)
      else
        (case q (length asked) next_owned next_contrib of
           Inl err \<Rightarrow> Some (Inl err)
         | Inr raw \<Rightarrow>
             (case page_step c (if raw = JNull then JObj [] else raw) next_owned next_contrib st of
                Inl err \<Rightarrow> Some (Inl err)
              | Inr (st1, None) \<Rightarrow> Some (Inr (st1, asked @ [(next_owned, next_contrib)]))
              | Inr (st1, Some (oc, cc)) \<Rightarrow>
                  get_stats_loop c q fuel oc cc st1 (asked @ [(next_owned, next_contrib)]))))"

text \<open>\<open>sum([v.get("size", 0) for v in self._languages.values()])\<close>.\<close>

fun sum_sizes :: "int \<Rightarrow> json list \<Rightarrow> error + int" where
  "sum_sizes acc [] = Inr acc"
| "sum_sizes acc (x # xs) =
     (case int_add acc x of Inl err \<Rightarrow> Inl err | Inr acc1 \<Rightarrow> sum_sizes acc1 xs)"

text \<open>
  The last three lines of \<open>get_stats\<close>: every entry gets
  \<open>prop = 100 * (size / langs_total)\<close>. With no entry nothing is divided; with entries
  of total size 0 the first division raises.
\<close>

definition set_props :: "(string \<times> lang_entry) list \<Rightarrow> error + (string \<times> lang_entry) list" where
  "set_props langs =
     (case sum_sizes 0 (map (\<lambda>kv. lang_size (snd kv)) langs) of
        Inl err \<Rightarrow> Inl err
      | Inr langs_total \<Rightarrow>
          (if langs = [] then Inr []
           else if langs_total = 0 then Inl ZeroDivisionError
           else Inr (map (\<lambda>kv. (fst kv,
                       (snd kv)\<lparr>lang_prop :=
                          Some (100 * (real_of_int (case py_num (lang_size (snd kv)) of
                                                      None \<Rightarrow> 0 | Some n \<Rightarrow> n)
                                       / real_of_int langs_total))\<rparr>)) langs)))"

definition initial_stats :: stats where
  "initial_stats =
     \<lparr>stats_name = JNull, stargazers = 0, forks = 0, languages = [], repos = []\<rparr>"

definition get_stats ::
  "config \<Rightarrow> (nat \<Rightarrow> json \<Rightarrow> json \<Rightarrow> error + json) \<Rightarrow> nat \<Rightarrow>
   (error + (stats \<times> (json \<times> json) list)) option" where
  "get_stats c q fuel =
     (case get_stats_loop c q fuel JNull JNull initial_stats [] of
        None \<Rightarrow> None
      | Some (Inl err) \<Rightarrow> Some (Inl err)
      | Some (Inr (st, asked)) \<Rightarrow>
          (case set_props (languages st) of
             Inl err \<Rightarrow> Some (Inl err)
           | Inr langs \<Rightarrow> Some (Inr (st\<lparr>languages := langs\<rparr>, asked))))"

text \<open>\<open>languages_proportional\<close> once the fields are set:
  \<open>{k: v.get("prop", 0) for (k, v) in self._languages.items()}\<close>.\<close>

definition languages_proportional :: "stats \<Rightarrow> (string \<times> real) list" where
  "languages_proportional st =
     map (\<lambda>kv. (fst kv, (case lang_prop (snd kv) of None \<Rightarrow> 0 | Some x \<Rightarrow> x))) (languages st)"

section \<open>The replies that the overview query asks for\<close>

text \<open>
  \<open>Queries.repos_overview\<close> asks, under \<open>viewer\<close>, for \<open>login\<close>, \<open>name\<close> and two
  edges, \<open>repositories\<close> and \<open>repositoriesContributedTo\<close>, each with
  \<open>pageInfo { hasNextPage endCursor }\<close> and \<open>nodes\<close> of the form
  \<open>{ nameWithOwner stargazers { totalCount } forkCount languages { edges { size node { name color } } } }\<close>.
  A reply of that form is a value of the records below (a node may be \<open>null\<close>), and
  \<open>encode_page\<close> is the decoded JSON that the program receives for it.
\<close>

record lang_edge =
  edge_size :: int
  edge_name :: string
  edge_color :: json

record repo_node =
  node_name :: string
  node_stars :: int
  node_forks :: int
  node_langs :: "lang_edge list"

record edge_page =
  page_nodes :: "repo_node option list"
  has_next_page :: bool
  end_cursor :: "string option"

record overview_page =
  viewer_login :: string
  viewer_name :: "string option"
  owned :: edge_page
  contributed :: edge_page

definition encode_lang :: "lang_edge \<Rightarrow> json" where
  "encode_lang l =
     JObj [(''size'', JInt (edge_size l)),
           (''node'', JObj [(''name'', JStr (edge_name l)), (''color'', edge_color l)])]"

definition encode_node :: "repo_node option \<Rightarrow> json" where
  "encode_node x =
     (case x of
        None \<Rightarrow> JNull
      | Some n \<Rightarrow>
          JObj [(''nameWithOwner'', JStr (node_name n)),
                (''stargazers'', JObj [(''totalCount'', JInt (node_stars n))]),
                (''forkCount'', JInt (node_forks n)),
                (''languages'', JObj [(''edges'', JList (map encode_lang (node_langs n)))])])"

definition encode_cursor :: "string option \<Rightarrow> json" where
  "encode_cursor x = (case x of None \<Rightarrow> JNull | Some s \<Rightarrow> JStr s)"

definition encode_edge :: "edge_page \<Rightarrow> json" where
  "encode_edge p =
     JObj [(''pageInfo'', JObj [(''hasNextPage'', JBool (has_next_page p)),
                                (''endCursor'', encode_cursor (end_cursor p))]),
           (''nodes'', JList (map encode_node (page_nodes p)))]"

definition encode_page :: "overview_page \<Rightarrow> json" where
  "encode_page pg =
     JObj [(''data'',
        JObj [(''viewer'',
           JObj [(''login'', JStr (viewer_login pg)),
                 (''name'', encode_cursor (viewer_name pg)),
                 (''repositories'', encode_edge (owned pg)),
                 (''repositoriesContributedTo'', encode_edge (contributed pg))])])]"

text \<open>A page announces a further page when either edge does.\<close>

definition further_page :: "overview_page \<Rightarrow> bool" where
  "further_page pg = (has_next_page (owned pg) \<or> has_next_page (contributed pg))"

text \<open>
  The identifiers of the nodes that a page returns: those of the owned edge, and those
  of the contributed-to edge unless the program is told to ignore forked contributions.
\<close>

definition node_names :: "repo_node option list \<Rightarrow> string list" where
  "node_names xs = concat (map (\<lambda>x. case x of None \<Rightarrow> [] | Some n \<Rightarrow> [node_name n]) xs)"

definition returned_names :: "config \<Rightarrow> overview_page \<Rightarrow> string list" where
  "returned_names c pg =
     node_names (page_nodes (owned pg))
     @ (if ignore_forked_repos c then [] else node_names (page_nodes (contributed pg)))"

text \<open>The service that answers the query number \<open>i\<close> with the page number \<open>i\<close> of a list.\<close>

definition paged_service :: "overview_page list \<Rightarrow> nat \<Rightarrow> json \<Rightarrow> json \<Rightarrow> error + json" where
  "paged_service pages i owned_cursor contrib_cursor =
     (if i < length pages then Inr (encode_page (pages ! i)) else Inl TransportError)"

text \<open>The language entries whose size is an integer, as every reply of the form above
  leaves them.\<close>

definition int_sizes :: "(string \<times> lang_entry) list \<Rightarrow> bool" where
  "int_sizes langs = (\<forall>kv\<in>set langs. \<exists>n. lang_size (snd kv) = JInt n)"

section \<open>github\_stats.py: helpers of the two reconcilers\<close>

text \<open>\<open>await self.queries.query_rest(path)\<close> as the reconcilers see it.\<close>

definition rest_call :: "env \<Rightarrow> string \<Rightarrow> world \<Rightarrow> error + (json \<times> world)" where
  "rest_call e path w =
     (case rest_reply e (ticks w) path of
        Inl err \<Rightarrow> Inl err
      | Inr v \<Rightarrow> Inr (v, w\<lparr>ticks := Suc (ticks w), fetched := fetched w @ [path]\<rparr>))"

text \<open>An object inside an f-string.\<close>

definition fmt :: "env \<Rightarrow> json \<Rightarrow> string" where
  "fmt e v = (case v of JStr s \<Rightarrow> s | _ \<Rightarrow> format_other e v)"

text \<open>\<open>"commit" in data\<close>: a key of a \<open>dict\<close>, an item of a list, a block of a string.\<close>

fun py_contains :: "string \<Rightarrow> json \<Rightarrow> error + bool" where
  "py_contains k (JObj d) = Inr (map_of d k \<noteq> None)"
| "py_contains k (JList xs) = Inr (JStr k \<in> set xs)"
| "py_contains k (JStr s) = Inr (occurs_in k s)"
| "py_contains k _ = Inl TypeError"

text \<open>\<open>not data or "commit" not in data\<close>.\<close>

definition no_commit :: "json \<Rightarrow> error + bool" where
  "no_commit data =
     (if \<not> truthy data then Inr True
      else (case py_contains ''commit'' data of Inl err \<Rightarrow> Inl err | Inr b \<Rightarrow> Inr (\<not> b)))"

text \<open>\<open>datetime.fromisoformat(x.replace("Z", "+00:00"))\<close>.\<close>

definition parse_iso :: "env \<Rightarrow> json \<Rightarrow> error + pydt" where
  "parse_iso e x =
     (case x of
        JStr s \<Rightarrow> (case fromisoformat e (replace_Z s) of None \<Rightarrow> Inl ValueError | Some d \<Rightarrow> Inr d)
      | _ \<Rightarrow> Inl AttributeError)"

text \<open>\<open>a <= b\<close> on two \<open>datetime\<close>s: a naive and an aware one do not compare.\<close>

fun dt_le :: "pydt \<Rightarrow> pydt \<Rightarrow> error + bool" where
  "dt_le (Naive a) (Naive b) = Inr (a \<le> b)"
| "dt_le (Aware a) (Aware b) = Inr (a \<le> b)"
| "dt_le _ _ = Inl TypeError"

text \<open>\<open>x[k1][k2][k3]\<close>.\<close>

definition py_item3 :: "json \<Rightarrow> string \<Rightarrow> string \<Rightarrow> string \<Rightarrow> error + json" where
  "py_item3 x k1 k2 k3 =
     (case py_item x k1 of
        Inl err \<Rightarrow> Inl err
      | Inr a \<Rightarrow> (case py_item a k2 of Inl err \<Rightarrow> Inl err | Inr b \<Rightarrow> py_item b k3))"

text \<open>\<open>event["repo"]["name"]\<close>.\<close>

definition event_repo :: "json \<Rightarrow> error + json" where
  "event_repo ev =
     (case py_item ev ''repo'' of Inl err \<Rightarrow> Inl err | Inr r \<Rightarrow> py_item r ''name'')"

section \<open>github\_stats.py: lines changed\<close>

text \<open>
  The body of \<open>for commit in event["payload"].get("commits", [])\<close> in
  \<open>lines_changed_since\<close>. The accumulator is \<open>(additions, deletions, newest_commit_date)\<close>.
  The date of the commit is kept or dropped by comparing \<open>datetime\<close>s; the newest date is
  chosen by comparing the texts.
\<close>

definition since_commit ::
  "env \<Rightarrow> pydt \<Rightarrow> json \<Rightarrow> json \<Rightarrow> int \<times> int \<times> string \<Rightarrow> world \<Rightarrow>
   error + ((int \<times> int \<times> string) \<times> world)" where
  "since_commit e since_dt ev commit acc w =
     (case event_repo ev of
        Inl err \<Rightarrow> Inl err
      | Inr repo \<Rightarrow>
     (case py_item commit ''sha'' of
        Inl err \<Rightarrow> Inl err
      | Inr sha \<Rightarrow>
     (case rest_call e (''/repos/'' @ fmt e repo @ ''/commits/'' @ fmt e sha) w of
        Inl err \<Rightarrow> Inl err
      | Inr (data, w1) \<Rightarrow>
     (case no_commit data of
        Inl err \<Rightarrow> Inl err
      | Inr True \<Rightarrow> Inr (acc, w1)
      | Inr False \<Rightarrow>
     (case py_item3 data ''commit'' ''author'' ''date'' of
        Inl err \<Rightarrow> Inl err
      | Inr commit_iso \<Rightarrow>
     (case parse_iso e commit_iso of
        Inl err \<Rightarrow> Inl err
      | Inr commit_dt \<Rightarrow>
     (case dt_le commit_dt since_dt of
        Inl err \<Rightarrow> Inl err
      | Inr True \<Rightarrow> Inr (acc, w1)
      | Inr False \<Rightarrow>
     (case py_get data ''stats'' JNull of
        Inl err \<Rightarrow> Inl err
      | Inr stats \<Rightarrow>
          (if \<not> truthy stats then Inr (acc, w1)
           else
     (case py_get stats ''additions'' (JInt 0) of
        Inl err \<Rightarrow> Inl err
      | Inr a \<Rightarrow>
     (case int_add (fst acc) a of
        Inl err \<Rightarrow> Inl err
      | Inr additions \<Rightarrow>
     (case py_get stats ''deletions'' (JInt 0) of
        Inl err \<Rightarrow> Inl err
      | Inr d \<Rightarrow>
     (case int_add (fst (snd acc)) d of
        Inl err \<Rightarrow> Inl err
      | Inr deletions \<Rightarrow>
          (case commit_iso of
             JStr date \<Rightarrow>
               Inr ((additions, deletions,
                     (if snd (snd acc) < date then date else snd (snd acc))), w1)
           | _ \<Rightarrow> Inl AttributeError))))))))))))))"

fun since_commits ::
  "env \<Rightarrow> pydt \<Rightarrow> json \<Rightarrow> json list \<Rightarrow> int \<times> int \<times> string \<Rightarrow> world \<Rightarrow>
   error + ((int \<times> int \<times> string) \<times> world)" where
  "since_commits e since_dt ev [] acc w = Inr (acc, w)"
| "since_commits e since_dt ev (commit # rest) acc w =
     (case since_commit e since_dt ev commit acc w of
        Inl err \<Rightarrow> Inl err
      | Inr (acc1, w1) \<Rightarrow> since_commits e since_dt ev rest acc1 w1)"

text \<open>The body of \<open>for event in events\<close> in \<open>lines_changed_since\<close>.\<close>

definition since_event ::
  "env \<Rightarrow> pydt \<Rightarrow> json \<Rightarrow> int \<times> int \<times> string \<Rightarrow> world \<Rightarrow>
   error + ((int \<times> int \<times> string) \<times> world)" where
  "since_event e since_dt ev acc w =
     (case py_get ev ''type'' JNull of
        Inl err \<Rightarrow> Inl err
      | Inr ty \<Rightarrow>
          (if ty \<noteq> JStr ''PushEvent'' then Inr (acc, w)
           else
     (case py_item ev ''payload'' of
        Inl err \<Rightarrow> Inl err
      | Inr pl \<Rightarrow>
     (case py_get pl ''commits'' (JList []) of
        Inl err \<Rightarrow> Inl err
      | Inr cs \<Rightarrow>
     (case py_iter cs of
        Inl err \<Rightarrow> Inl err
      | Inr commits \<Rightarrow> since_commits e since_dt ev commits acc w)))))"

fun since_events ::
  "env \<Rightarrow> pydt \<Rightarrow> json list \<Rightarrow> int \<times> int \<times> string \<Rightarrow> world \<Rightarrow>
   error + ((int \<times> int \<times> string) \<times> world)" where
  "since_events e since_dt [] acc w = Inr (acc, w)"
| "since_events e since_dt (ev # rest) acc w =
     (case since_event e since_dt ev acc w of
        Inl err \<Rightarrow> Inl err
      | Inr (acc1, w1) \<Rightarrow> since_events e since_dt rest acc1 w1)"

definition lines_changed_since ::
  "env \<Rightarrow> config \<Rightarrow> json \<Rightarrow> world \<Rightarrow> error + ((int \<times> int \<times> string) \<times> world)" where
  "lines_changed_since e c since_iso w =
     (case parse_iso e since_iso of
        Inl err \<Rightarrow> Inl err
      | Inr since_dt \<Rightarrow>
     (case rest_call e (''/users/'' @ username c @ ''/events'') w of
        Inl err \<Rightarrow> Inl err
      | Inr (events, w1) \<Rightarrow>
     (case py_iter events of
        Inl err \<Rightarrow> Inl err
      | Inr evs \<Rightarrow>
          since_events e since_dt evs
            (0, 0, (case since_iso of JStr s \<Rightarrow> s | _ \<Rightarrow> [])) w1)))"

text \<open>The cold path: the weeks of one contributor, the contributors of one repository.\<close>

fun add_weeks :: "json list \<Rightarrow> int \<times> int \<Rightarrow> error + (int \<times> int)" where
  "add_weeks [] acc = Inr acc"
| "add_weeks (week # rest) acc =
     (case py_get week ''a'' (JInt 0) of
        Inl err \<Rightarrow> Inl err
      | Inr a \<Rightarrow>
     (case int_add (fst acc) a of
        Inl err \<Rightarrow> Inl err
      | Inr additions \<Rightarrow>
     (case py_get week ''d'' (JInt 0) of
        Inl err \<Rightarrow> Inl err
      | Inr d \<Rightarrow>
     (case int_add (snd acc) d of
        Inl err \<Rightarrow> Inl err
      | Inr deletions \<Rightarrow> add_weeks rest (additions, deletions)))))"

definition add_author :: "config \<Rightarrow> json \<Rightarrow> int \<times> int \<Rightarrow> error + (int \<times> int)" where
  "add_author c author_obj acc =
     (case py_get author_obj ''author'' (JObj []) of
        Inl err \<Rightarrow> Inl err
      | Inr au \<Rightarrow>
     (case py_get au ''login'' JNull of
        Inl err \<Rightarrow> Inl err
      | Inr author \<Rightarrow>
          (if author \<noteq> JStr (username c) then Inr acc
           else
     (case py_get author_obj ''weeks'' (JList []) of
        Inl err \<Rightarrow> Inl err
      | Inr ws \<Rightarrow>
     (case py_iter ws of
        Inl err \<Rightarrow> Inl err
      | Inr weeks \<Rightarrow> add_weeks weeks acc)))))"

fun add_authors :: "config \<Rightarrow> json list \<Rightarrow> int \<times> int \<Rightarrow> error + (int \<times> int)" where
  "add_authors c [] acc = Inr acc"
| "add_authors c (author_obj # rest) acc =
     (case add_author c author_obj acc of
        Inl err \<Rightarrow> Inl err
      | Inr acc1 \<Rightarrow> add_authors c rest acc1)"

text \<open>\<open>for repo in await self.repos\<close>, over the names discovered.\<close>

fun scan_repos ::
  "env \<Rightarrow> config \<Rightarrow> string list \<Rightarrow> int \<times> int \<Rightarrow> world \<Rightarrow> error + ((int \<times> int) \<times> world)" where
  "scan_repos e c [] acc w = Inr (acc, w)"
| "scan_repos e c (repo # rest) acc w =
     (case rest_call e (''/repos/'' @ repo @ ''/stats/contributors'') w of
        Inl err \<Rightarrow> Inl err
      | Inr (r, w1) \<Rightarrow>
          (case r of
             JList authors \<Rightarrow>
               (case add_authors c authors acc of
                  Inl err \<Rightarrow> Inl err
                | Inr acc1 \<Rightarrow> scan_repos e c rest acc1 w1)
           | _ \<Rightarrow> scan_repos e c rest acc w1))"

text \<open>
  \<open>Stats.lines_changed\<close>, for the repositories that \<open>await self.repos\<close> gives. The result
  is the pair \<open>(additions, deletions)\<close>; on the warm path its components come from the
  cache document as they are.
\<close>

definition lines_changed ::
  "env \<Rightarrow> config \<Rightarrow> string list \<Rightarrow> world \<Rightarrow> error + ((json \<times> json) \<times> world)" where
  "lines_changed e c discovered w =
     (case load_cache w of
        Inl err \<Rightarrow> Inl err
      | Inr cache \<Rightarrow>
          (let lc = get_lines_changed cache in
           if \<not> truthy lc then
             (case scan_repos e c discovered (0, 0) w of
                Inl err \<Rightarrow> Inl err
              | Inr ((additions, deletions), w1) \<Rightarrow>
                  (case utc_now_iso e w1 of
                     (now, w2) \<Rightarrow>
                       Inr ((JInt additions, JInt deletions),
                            save_cache e
                              (set_lines_changed cache (JInt additions) (JInt deletions) (JStr now))
                              w2)))
           else
     (case py_item lc ''additions'' of
        Inl err \<Rightarrow> Inl err
      | Inr additions \<Rightarrow>
     (case py_item lc ''deletions'' of
        Inl err \<Rightarrow> Inl err
      | Inr deletions \<Rightarrow>
     (case py_item lc ''last_commit_date'' of
        Inl err \<Rightarrow> Inl err
      | Inr since \<Rightarrow>
     (case lines_changed_since e c since w of
        Inl err \<Rightarrow> Inl err
      | Inr ((delta_add, delta_del, newest), w1) \<Rightarrow>
          (if delta_add = 0 \<and> delta_del = 0 then Inr ((additions, deletions), w1)
           else
     (case py_iadd additions (JInt delta_add) of
        Inl err \<Rightarrow> Inl err
      | Inr additions1 \<Rightarrow>
     (case py_iadd deletions (JInt delta_del) of
        Inl err \<Rightarrow> Inl err
      | Inr deletions1 \<Rightarrow>
          Inr ((additions1, deletions1),
               save_cache e (set_lines_changed cache additions1 deletions1 (JStr newest)) w1))))))))))"

section \<open>github\_stats.py: recent commits\<close>

text \<open>\<open>head[:7]\<close>: strings and lists can be sliced, nothing else can.\<close>

fun slice7 :: "json \<Rightarrow> error + json" where
  "slice7 (JStr s) = Inr (JStr (take 7 s))"
| "slice7 (JList xs) = Inr (JList (take 7 xs))"
| "slice7 _ = Inl TypeError"

text \<open>
  The loop of \<open>recent_commit_fingerprints\<close> over the events returned: only push events
  with a head count, a fingerprint already collected is not added again, and the loop
  breaks after a push event that leaves \<open>limit\<close> fingerprints or more.
\<close>

fun fingerprints_loop :: "env \<Rightarrow> int \<Rightarrow> json list \<Rightarrow> string list \<Rightarrow> error + string list" where
  "fingerprints_loop e limit [] fingerprints = Inr fingerprints"
| "fingerprints_loop e limit (ev # rest) fingerprints =
     (case py_get ev ''type'' JNull of
        Inl err \<Rightarrow> Inl err
      | Inr ty \<Rightarrow>
          (if ty \<noteq> JStr ''PushEvent'' then fingerprints_loop e limit rest fingerprints
           else
     (case event_repo ev of
        Inl err \<Rightarrow> Inl err
      | Inr repo \<Rightarrow>
     (case py_item ev ''payload'' of
        Inl err \<Rightarrow> Inl err
      | Inr pl \<Rightarrow>
     (case py_get pl ''head'' JNull of
        Inl err \<Rightarrow> Inl err
      | Inr head \<Rightarrow>
          (if \<not> truthy head then fingerprints_loop e limit rest fingerprints
           else
     (case slice7 head of
        Inl err \<Rightarrow> Inl err
      | Inr sha \<Rightarrow>
          (let fp = fmt e repo @ ''@'' @ fmt e sha;
               fingerprints1 = (if fp \<in> set fingerprints then fingerprints
                                else fingerprints @ [fp])
           in if limit \<le> int (length fingerprints1) then Inr fingerprints1
              else fingerprints_loop e limit rest fingerprints1))))))))"

definition recent_commit_fingerprints ::
  "env \<Rightarrow> config \<Rightarrow> int \<Rightarrow> world \<Rightarrow> error + (string list \<times> world)" where
  "recent_commit_fingerprints e c limit w =
     (case rest_call e (''/users/'' @ username c @ ''/events'') w of
        Inl err \<Rightarrow> Inl err
      | Inr (events, w1) \<Rightarrow>
     (case py_iter events of
        Inl err \<Rightarrow> Inl err
      | Inr evs \<Rightarrow>
     (case fingerprints_loop e limit evs [] of
        Inl err \<Rightarrow> Inl err
      | Inr fingerprints \<Rightarrow> Inr (fingerprints, w1))))"

text \<open>The path of the detail query that \<open>fetch_commit_details\<close> makes for a fingerprint.\<close>

definition detail_path :: "string \<Rightarrow> string \<Rightarrow> string \<Rightarrow> string" where
  "detail_path owner repo short_sha = ''/repos/'' @ owner @ ''/'' @ repo @ ''/commits/'' @ short_sha"

text \<open>The body of \<open>for fp in fingerprints\<close> in \<open>fetch_commit_details\<close>.\<close>

definition fetch_commit_detail ::
  "env \<Rightarrow> json \<Rightarrow> json list \<Rightarrow> world \<Rightarrow> error + (json list \<times> world)" where
  "fetch_commit_detail e fp commits w =
     (case fp of
        JStr s \<Rightarrow>
     (case unpack2 (rsplit1 CHR ''@'' s) of
        Inl err \<Rightarrow> Inl err
      | Inr (repo_full, short_sha) \<Rightarrow>
     (case unpack2 (split_on CHR ''/'' repo_full) of
        Inl err \<Rightarrow> Inl err
      | Inr (owner, repo) \<Rightarrow>
     (case rest_call e (detail_path owner repo short_sha) w of
        Inl err \<Rightarrow> Inl err
      | Inr (data, w1) \<Rightarrow>
     (case no_commit data of
        Inl err \<Rightarrow> Inl err
      | Inr True \<Rightarrow> Inr (commits, w1)
      | Inr False \<Rightarrow>
     (case py_item data ''commit'' of
        Inl err \<Rightarrow> Inl err
      | Inr cm \<Rightarrow>
     (case py_item cm ''message'' of
        Inl err \<Rightarrow> Inl err
      | Inr msg \<Rightarrow>
     (case msg of
        JStr message \<Rightarrow>
     (case split_on (CHR 0x0A) message of
        [] \<Rightarrow> Inl ValueError
      | first_line # _ \<Rightarrow>
     (case py_item3 data ''commit'' ''author'' ''name'' of
        Inl err \<Rightarrow> Inl err
      | Inr author \<Rightarrow>
     (case py_item3 data ''commit'' ''author'' ''date'' of
        Inl err \<Rightarrow> Inl err
      | Inr date \<Rightarrow>
          Inr (commits @
                 [JObj [(''repo'', JStr (owner @ ''/'' @ repo)),
                        (''message'', JStr first_line),
                        (''author'', author),
                        (''date'', date),
                        (''sha'', JStr short_sha)]],
               w1))))
      | _ \<Rightarrow> Inl AttributeError)))))))
      | _ \<Rightarrow> Inl AttributeError)"

fun fetch_commit_details_loop ::
  "env \<Rightarrow> json list \<Rightarrow> json list \<Rightarrow> world \<Rightarrow> error + (json list \<times> world)" where
  "fetch_commit_details_loop e [] commits w = Inr (commits, w)"
| "fetch_commit_details_loop e (fp # rest) commits w =
     (case fetch_commit_detail e fp commits w of
        Inl err \<Rightarrow> Inl err
      | Inr (commits1, w1) \<Rightarrow> fetch_commit_details_loop e rest commits1 w1)"

definition fetch_commit_details :: "env \<Rightarrow> json \<Rightarrow> world \<Rightarrow> error + (json list \<times> world)" where
  "fetch_commit_details e fingerprints w =
     (case py_iter fingerprints of
        Inl err \<Rightarrow> Inl err
      | Inr fps \<Rightarrow> fetch_commit_details_loop e fps [] w)"

text \<open>
  \<open>Stats.recent_commits\<close>. When the fingerprints are those of the cache, the details are
  fetched for the cached list and nothing is written.
\<close>

definition recent_commits ::
  "env \<Rightarrow> config \<Rightarrow> int \<Rightarrow> world \<Rightarrow> error + (json list \<times> world)" where
  "recent_commits e c limit w =
     (case load_cache w of
        Inl err \<Rightarrow> Inl err
      | Inr cache \<Rightarrow>
     (case (let cached = get_recent_commits cache
            in if truthy cached then py_item cached ''fingerprints'' else Inr (JList [])) of
        Inl err \<Rightarrow> Inl err
      | Inr old_fps \<Rightarrow>
     (case recent_commit_fingerprints e c limit w of
        Inl err \<Rightarrow> Inl err
      | Inr (new_fps, w1) \<Rightarrow>
          (if \<not> truthy old_fps \<and> new_fps = [] then
             (case set_recent_commits e cache (JList []) w1 of
                (cache1, w2) \<Rightarrow> Inr ([], save_cache e cache1 w2))
           else if truthy old_fps \<and> JList (map JStr new_fps) = old_fps then
             fetch_commit_details e old_fps w1
           else
             (case fetch_commit_details e (JList (map JStr new_fps)) w1 of
                Inl err \<Rightarrow> Inl err
              | Inr (commits, w2) \<Rightarrow>
                  (case set_recent_commits e cache (JList (map JStr new_fps)) w2 of
                     (cache1, w3) \<Rightarrow> Inr (commits, save_cache e cache1 w3)))))))"

section \<open>The events and commit details that the warm path reads\<close>

text \<open>
  What the warm path of \<open>lines_changed\<close> uses of the service, as typed data: the events
  of the user, of which a push event names a repository and lists commits by their sha;
  and for each commit the authored date and, if the detail has them, the additions and
  deletions. \<open>encode_event\<close> and \<open>encode_detail\<close> are the decoded JSON that the program
  receives for them from \<open>users/{user}/events\<close> and \<open>repos/{repo}/commits/{sha}\<close>.
\<close>

record commit_info =
  commit_sha :: string
  commit_date :: string
  commit_stats :: "(int \<times> int) option"

datatype user_event = Push string "commit_info list" | Other string

definition encode_event :: "user_event \<Rightarrow> json" where
  "encode_event ev =
     (case ev of
        Push repo cms \<Rightarrow>
          JObj [(''type'', JStr ''PushEvent''),
                (''repo'', JObj [(''name'', JStr repo)]),
                (''payload'',
                 JObj [(''commits'', JList (map (\<lambda>cm. JObj [(''sha'', JStr (commit_sha cm))]) cms))])]
      | Other ty \<Rightarrow>
          JObj [(''type'', JStr ty), (''repo'', JObj [(''name'', JStr [])]),
                (''payload'', JObj [])])"

definition encode_detail :: "commit_info \<Rightarrow> json" where
  "encode_detail cm =
     JObj ([(''sha'', JStr (commit_sha cm)),
            (''commit'', JObj [(''author'', JObj [(''date'', JStr (commit_date cm))])])]
           @ (case commit_stats cm of
                None \<Rightarrow> []
              | Some (a, d) \<Rightarrow>
                  [(''stats'', JObj [(''total'', JInt (a + d)), (''additions'', JInt a),
                                     (''deletions'', JInt d)])]))"

text \<open>
  In the words of the specification: the commits of the push events, in order; among
  them those accumulated, which are the commits authored after the watermark (as
  instants) whose detail has statistics; the two sums over them; and the newest date,
  which is the greatest text among the watermark and the dates of the commits
  accumulated, in the lexicographic order of strings.
\<close>

definition pushed_commits :: "user_event list \<Rightarrow> (string \<times> commit_info) list" where
  "pushed_commits evs =
     concat (map (\<lambda>ev. case ev of Push repo cms \<Rightarrow> map (Pair repo) cms | Other ty \<Rightarrow> []) evs)"

definition newer_with_stats ::
  "(string \<Rightarrow> int) \<Rightarrow> string \<Rightarrow> commit_info list \<Rightarrow> commit_info list" where
  "newer_with_stats instant since cms =
     filter (\<lambda>cm. instant since < instant (commit_date cm) \<and> commit_stats cm \<noteq> None) cms"

definition accumulated ::
  "(string \<Rightarrow> int) \<Rightarrow> string \<Rightarrow> user_event list \<Rightarrow> commit_info list" where
  "accumulated instant since evs = newer_with_stats instant since (map snd (pushed_commits evs))"

definition additions_of :: "commit_info \<Rightarrow> int" where
  "additions_of cm = (case commit_stats cm of None \<Rightarrow> 0 | Some (a, d) \<Rightarrow> a)"

definition deletions_of :: "commit_info \<Rightarrow> int" where
  "deletions_of cm = (case commit_stats cm of None \<Rightarrow> 0 | Some (a, d) \<Rightarrow> d)"

definition newest_date :: "string \<Rightarrow> commit_info list \<Rightarrow> string" where
  "newest_date since cms = Max (set (since # map commit_date cms))"

definition commit_path :: "string \<times> commit_info \<Rightarrow> string" where
  "commit_path rc = ''/repos/'' @ fst rc @ ''/commits/'' @ commit_sha (snd rc)"

section \<open>generate\_images.py: the two reconcilers in one run\<close>

text \<open>
  \<open>main\<close> hands \<open>generate_overview\<close> (which awaits \<open>Stats.lines_changed\<close>) and
  \<open>generate_recent_commits\<close> (which awaits \<open>Stats.recent_commits\<close>) to one
  \<open>asyncio.gather\<close>. Each reconciler calls \<open>load_cache()\<close> first, then awaits the
  network, and calls \<open>save_cache\<close> last, on the copy that it loaded. Here are the cache
  operations of a run in which both have loaded before either saves and
  \<open>recent_commits\<close> is the first to finish, in the order in which they happen; the
  result is the world after each of the two saves.
\<close>

definition commits_then_lines ::
  "env \<Rightarrow> json \<Rightarrow> json \<Rightarrow> json \<Rightarrow> json \<Rightarrow> world \<Rightarrow> error + (world \<times> world)" where
  "commits_then_lines e fingerprints additions deletions last_commit_date w =
     (case load_cache w of
        Inl err \<Rightarrow> Inl err
      | Inr lines_copy \<Rightarrow>
     (case load_cache w of
        Inl err \<Rightarrow> Inl err
      | Inr commits_copy \<Rightarrow>
     (case set_recent_commits e commits_copy fingerprints w of
        (doc, w1) \<Rightarrow>
          (let w2 = save_cache e doc w1
           in Inr (w2, save_cache e
                         (set_lines_changed lines_copy additions deletions last_commit_date)
                         w2)))))"

section \<open>Scenarios\<close>

text \<open>
  A clock that prints a different second at each logical time, a service that answers
  \<open>null\<close> to every path, and a world in which nothing has happened yet.
\<close>

definition demo_env :: env where
  "demo_env =
     \<lparr>utcnow_isoformat = (\<lambda>t. ''2024-01-01T00:00:0'' @ [char_of (48 + t)]),
      rest_reply = (\<lambda>t path. Inr JNull),
      fromisoformat = (\<lambda>s. None),
      format_other = (\<lambda>v. ''None'')\<rparr>"

definition fresh_world :: world where
  "fresh_world = \<lparr>cache_file = Missing, ticks = 0, fetched = []\<rparr>"

text \<open>
  Networks for the structured query: both transports raise, and the first raises while
  the second answers. Networks for the resource-path query: one that answers 202 for
  ever; one whose first 200 has the body \<open>null\<close>; one whose first transport raises in
  pass 0, where the second answers 202, answers 202 itself in pass 1 and 200 with a body
  in pass 2; and one whose passes end in four ways: a body that does not decode followed
  by 202 from the second transport, a body \<open>null\<close>, an exception followed by 500 from the
  second transport, an exception followed by 200 with a body from the second transport.
\<close>

definition dead_net :: graphql_net where
  "dead_net = \<lparr>aiohttp_post = (\<lambda>q. None), requests_post = (\<lambda>q. None)\<rparr>"

definition limping_net :: graphql_net where
  "limping_net =
     \<lparr>aiohttp_post = (\<lambda>q. None),
      requests_post = (\<lambda>q. Some \<lparr>status = 200, body = Some (JObj [(''data'', JNull)])\<rparr>)\<rparr>"

definition detour_net :: rest_net where
  "detour_net =
     \<lparr>aiohttp_get = (\<lambda>i path.
        if i < 1 then None
        else if i < 2 then Some \<lparr>status = 202, body = None\<rparr>
        else Some \<lparr>status = 200, body = Some (JList [JInt 1])\<rparr>),
      requests_get = (\<lambda>i path. Some \<lparr>status = 202, body = None\<rparr>)\<rparr>"

definition relay_net :: rest_net where
  "relay_net =
     \<lparr>aiohttp_get = (\<lambda>i path.
        if i < 1 then Some \<lparr>status = 200, body = None\<rparr>
        else if i < 2 then Some \<lparr>status = 200, body = Some JNull\<rparr>
        else None),
      requests_get = (\<lambda>i path.
        if i < 1 then Some \<lparr>status = 202, body = None\<rparr>
        else if i < 3 then Some \<lparr>status = 500, body = None\<rparr>
        else Some \<lparr>status = 200, body = Some (JObj [(''a'', JInt 1)])\<rparr>)\<rparr>"

definition busy_net :: rest_net where
  "busy_net =
     \<lparr>aiohttp_get = (\<lambda>i path. Some \<lparr>status = 202, body = None\<rparr>),
      requests_get = (\<lambda>i path. None)\<rparr>"

definition null_net :: rest_net where
  "null_net =
     \<lparr>aiohttp_get = (\<lambda>i path.
        if i = 0 then Some \<lparr>status = 200, body = Some JNull\<rparr>
        else Some \<lparr>status = 200, body = Some (JObj [(''a'', JInt 1)])\<rparr>),
      requests_get = (\<lambda>i path. None)\<rparr>"

text \<open>
  A user with default settings, and a structured-query service that has nothing to
  report (the empty result that \<open>Queries.query\<close> gives for a decoded \<open>null\<close>).
\<close>

definition plain_config :: config where
  "plain_config =
     \<lparr>username = ''u'', ignore_forked_repos = False, exclude_repos = [], exclude_langs = []\<rparr>"

definition silent_service :: "nat \<Rightarrow> json \<Rightarrow> json \<Rightarrow> error + json" where
  "silent_service i owned_cursor contrib_cursor = Inr (JObj [])"

text \<open>
  Two pages of discovery: the first announces a further page, the second repeats a
  repository of the first, has a \<open>null\<close> node and a repository contributed to.
\<close>

definition repo_a :: repo_node where
  "repo_a =
     \<lparr>node_name = ''u/a'', node_stars = 3, node_forks = 1,
      node_langs = [\<lparr>edge_size = 300, edge_name = ''Python'', edge_color = JStr ''#3572A5''\<rparr>,
                    \<lparr>edge_size = 60, edge_name = ''C'', edge_color = JNull\<rparr>]\<rparr>"

definition repo_b :: repo_node where
  "repo_b =
     \<lparr>node_name = ''u/b'', node_stars = 0, node_forks = 0,
      node_langs = [\<lparr>edge_size = 40, edge_name = ''C'', edge_color = JNull\<rparr>]\<rparr>"

definition repo_r :: repo_node where
  "repo_r = \<lparr>node_name = ''o/r'', node_stars = 10, node_forks = 2, node_langs = []\<rparr>"

definition two_pages :: "overview_page list" where
  "two_pages =
     [\<lparr>viewer_login = ''u'', viewer_name = None,
       owned = \<lparr>page_nodes = [Some repo_a], has_next_page = True, end_cursor = Some ''c1''\<rparr>,
       contributed = \<lparr>page_nodes = [], has_next_page = False, end_cursor = None\<rparr>\<rparr>,
      \<lparr>viewer_login = ''u'', viewer_name = None,
       owned = \<lparr>page_nodes = [Some repo_a, Some repo_b], has_next_page = False,
                end_cursor = Some ''c2''\<rparr>,
       contributed = \<lparr>page_nodes = [None, Some repo_r], has_next_page = False,
                      end_cursor = Some ''d1''\<rparr>\<rparr>]"

definition forkless_config :: config where
  "forkless_config =
     \<lparr>username = ''u'', ignore_forked_repos = True, exclude_repos = [], exclude_langs = []\<rparr>"

text \<open>
  The contributor statistics of one repository: two weeks of the user \<open>login\<close>,
  with 5 and 3 lines added and 2 and 1 lines deleted; and a service that returns them
  for every path.
\<close>

definition two_weeks_reply :: "string \<Rightarrow> json" where
  "two_weeks_reply login =
     JList [JObj [(''total'', JInt 2),
                  (''author'', JObj [(''login'', JStr login)]),
                  (''weeks'',
                   JList [JObj [(''w'', JInt 1704067200), (''a'', JInt 5), (''d'', JInt 2),
                                (''c'', JInt 1)],
                          JObj [(''w'', JInt 1704672000), (''a'', JInt 3), (''d'', JInt 1),
                                (''c'', JInt 1)]])]]"

definition cold_env :: env where
  "cold_env = demo_env\<lparr>rest_reply := (\<lambda>t path. Inr (two_weeks_reply ''u''))\<rparr>"

text \<open>
  One push event of the user \<open>u\<close> to \<open>o/r\<close> with head \<open>abc1234def\<close>, the detail of
  that commit, a service that returns both, and a world whose cache holds the fingerprint
  of that head.
\<close>

definition one_push_reply :: json where
  "one_push_reply =
     JList [JObj [(''type'', JStr ''PushEvent''),
                  (''repo'', JObj [(''name'', JStr ''o/r'')]),
                  (''payload'', JObj [(''head'', JStr ''abc1234def''),
                                      (''commits'', JList [JObj [(''sha'', JStr ''abc1234def'')]])])]]"

definition head_detail :: json where
  "head_detail =
     JObj [(''sha'', JStr ''abc1234def''),
           (''commit'',
            JObj [(''author'', JObj [(''name'', JStr ''U'') , (''date'', JStr ''2024-01-02T10:00:00Z'')]),
                  (''message'', JStr (''Fix parser'' @ [CHR 0x0A] @ ''Details''))]),
           (''stats'', JObj [(''total'', JInt 0), (''additions'', JInt 0), (''deletions'', JInt 0)])]"

definition push_env :: env where
  "push_env =
     \<lparr>utcnow_isoformat = (\<lambda>t. ''2024-01-03T00:00:0'' @ [char_of (48 + t)]),
      rest_reply = (\<lambda>t path.
         if path = ''/users/u/events'' then Inr one_push_reply
         else if path = ''/repos/o/r/commits/abc1234'' then Inr head_detail
         else if path = ''/repos/o/r/commits/abc1234def'' then Inr head_detail
         else Inr (JObj [])),
      fromisoformat = (\<lambda>s.
         if s = ''2024-01-01T00:00:00+00:00'' then Some (Aware 1704067200000000)
         else if s = ''2024-01-02T10:00:00+00:00'' then Some (Aware 1704189600000000)
         else None),
      format_other = (\<lambda>v. ''None'')\<rparr>"

definition cached_doc :: dict where
  "cached_doc =
     [(''version'', JInt 1),
      (''updated_at'', JStr ''2024-01-01T00:00:00Z''),
      (''lines_changed'',
       JObj [(''additions'', JInt 8), (''deletions'', JInt 3),
             (''last_commit_date'', JStr ''2024-01-01T00:00:00Z'')]),
      (''recent_commits'',
       JObj [(''fingerprints'', JList [JStr ''o/r@abc1234'']),
             (''last_checked'', JStr ''2024-01-01T00:00:00Z'')])]"

definition cached_world :: world where
  "cached_world = \<lparr>cache_file = Parsed (JObj cached_doc), ticks = 0, fetched = []\<rparr>"

text \<open>
  Events for the warm path, against a watermark of 2024-01-01: one push with a commit
  after the watermark (5 lines added, 2 deleted), one before it, and one after it whose
  detail has no statistics; and a push whose only commit is after the watermark and
  changes no line. \<open>typed_env\<close> is the service that returns the events and the
  details, with a \<open>fromisoformat\<close> that knows the four dates.
\<close>

definition week_events :: "user_event list" where
  "week_events =
     [Other ''WatchEvent'',
      Push ''o/r''
        [\<lparr>commit_sha = ''aaa1111'', commit_date = ''2024-01-02T10:00:00Z'',
          commit_stats = Some (5, 2)\<rparr>,
         \<lparr>commit_sha = ''bbb2222'', commit_date = ''2023-12-31T09:00:00Z'',
          commit_stats = Some (9, 9)\<rparr>,
         \<lparr>commit_sha = ''ccc3333'', commit_date = ''2024-01-03T08:00:00Z'',
          commit_stats = None\<rparr>]]"

definition quiet_events :: "user_event list" where
  "quiet_events =
     [Push ''o/r''
        [\<lparr>commit_sha = ''ddd4444'', commit_date = ''2024-01-02T10:00:00Z'',
          commit_stats = Some (0, 0)\<rparr>]]"

definition instant_of :: "string \<Rightarrow> int" where
  "instant_of s =
     (if s = ''2023-12-31T09:00:00Z'' then 1704013200000000
      else if s = ''2024-01-01T00:00:00Z'' then 1704067200000000
      else if s = ''2024-01-02T10:00:00Z'' then 1704189600000000
      else if s = ''2024-01-03T08:00:00Z'' then 1704268800000000
      else 0)"

definition typed_env :: "user_event list \<Rightarrow> env" where
  "typed_env evs =
     \<lparr>utcnow_isoformat = (\<lambda>t. ''2024-01-05T00:00:0'' @ [char_of (48 + t)]),
      rest_reply = (\<lambda>t path.
         if path = ''/users/u/events'' then Inr (JList (map encode_event evs))
         else (case find (\<lambda>rc. commit_path rc = path) (pushed_commits evs) of
                 None \<Rightarrow> Inr (JObj [])
               | Some rc \<Rightarrow> Inr (encode_detail (snd rc)))),
      fromisoformat = (\<lambda>s.
         case find (\<lambda>d. replace_Z d = s)
                [''2023-12-31T09:00:00Z'', ''2024-01-01T00:00:00Z'', ''2024-01-02T10:00:00Z'',
                 ''2024-01-03T08:00:00Z''] of
           None \<Rightarrow> None
         | Some d \<Rightarrow> Some (Aware (instant_of d))),
      format_other = (\<lambda>v. ''None'')\<rparr>"

section \<open>Facts about dictionaries\<close>

lemma set_alist_update:
  "kv \<in> set (AList.update k v al) \<Longrightarrow> kv = (k, v) \<or> kv \<in> set al"
  by (induction al) (auto split: if_splits)

lemma map_of_foldl_update:
  "map_of (foldl (\<lambda>acc (k, v). AList.update k v acc) base xs) = map_of base ++ map_of (rev xs)"
proof (induction xs arbitrary: base)
  case Nil
  show ?case by simp
next
  case (Cons p ps)
  obtain k v where p: "p = (k, v)" by (cases p)
  have "map_of (foldl (\<lambda>acc (k, v). AList.update k v acc) base (p # ps))
        = map_of (AList.update k v base) ++ map_of (rev ps)"
    using Cons.IH [of "AList.update k v base"] by (simp add: p)
  also have "\<dots> = map_of base ++ map_of (rev (p # ps))"
    by (simp add: p update_conv' map_add_upd_left fun_eq_iff map_add_def split: option.splits)
  finally show ?case .
qed

lemma map_of_rev_distinct:
  "distinct (map fst xs) \<Longrightarrow> map_of (rev xs) = map_of xs"
proof (induction xs)
  case Nil
  show ?case by simp
next
  case (Cons p ps)
  obtain k v where p: "p = (k, v)" by (cases p)
  from Cons.prems have fresh: "map_of ps k = None"
    by (simp add: p map_of_eq_None_iff)
  from Cons have IH: "map_of (rev ps) = map_of ps" by simp
  show ?case
    using fresh by (auto simp: p IH map_add_def fun_eq_iff split: option.splits)
qed

lemma map_of_payload:
  assumes "distinct (map fst data)"
  shows "map_of (payload now data) =
         map_of [(''version'', JInt CACHE_VERSION), (''updated_at'', JStr now)] ++ map_of data"
proof -
  have "map_of (rev data) = map_of data"
    using assms by (rule map_of_rev_distinct)
  then show ?thesis
    by (simp only: payload_def map_of_foldl_update)
qed

section \<open>The cache store\<close>

lemma load_cache_Some:
  assumes "load_cache w = Inr (Some held)"
  shows "cache_file w = Parsed (JObj held)
       \<and> py_eq_int (dict_get held ''version'' JNull) CACHE_VERSION"
proof (cases "cache_file w")
  case Missing
  with assms show ?thesis by (simp add: load_cache_def)
next
  case Malformed
  with assms show ?thesis by (simp add: load_cache_def)
next
  case (Unreadable err)
  with assms show ?thesis by (simp add: load_cache_def)
next
  case (Parsed data)
  show ?thesis
  proof (cases data)
    case (JObj d)
    with Parsed assms show ?thesis
      by (simp add: load_cache_def split: if_splits)
  qed (use Parsed assms in \<open>simp_all add: load_cache_def\<close>)
qed

lemma save_cache_keeps:
  assumes version: "py_eq_int (dict_get doc ''version'' JNull) CACHE_VERSION"
    and keys: "distinct (map fst doc)"
    and there: "map_of doc k = Some v"
  shows "\<exists>p. load_cache (save_cache e doc w) = Inr (Some p) \<and> map_of p k = Some v"
proof -
  define now where "now = utcnow_isoformat e (ticks w) @ ''Z''"
  have m: "map_of (payload now doc)
           = map_of [(''version'', JInt CACHE_VERSION), (''updated_at'', JStr now)] ++ map_of doc"
    using keys by (rule map_of_payload)
  have written: "cache_file (save_cache e doc w) = Parsed (JObj (payload now doc))"
    by (simp add: save_cache_def utc_now_iso_def now_def)
  have "dict_get (payload now doc) ''version'' JNull = dict_get doc ''version'' JNull"
    using version by (cases "map_of doc ''version''") (simp_all add: dict_get_def m map_add_def)
  with version have "load_cache (save_cache e doc w) = Inr (Some (payload now doc))"
    by (simp add: load_cache_def written)
  moreover have "map_of (payload now doc) k = Some v"
    by (simp add: m map_add_def there)
  ultimately show ?thesis by blast
qed

text \<open>
  Claim C10, as amended. For every cache document, the absent one standing for the
  empty document, \<open>set_lines_changed\<close> leaves the value of every key other than
  \<open>lines_changed\<close> as it was, \<open>set_recent_commits\<close> leaves the value of every key other
  than \<open>recent_commits\<close> as it was, and \<open>save_cache\<close> writes every key of the dictionary
  it is given with the value it has there (a dictionary has no key twice). So when the
  document that a setter is applied to is the one that \<open>load_cache\<close> gives for the file
  at the moment of the \<open>save_cache\<close>, what the file holds under \<open>recent_commits\<close> is what
  \<open>load_cache\<close> gives under that key after \<open>set_lines_changed\<close> and \<open>save_cache\<close>, and what
  it holds under \<open>lines_changed\<close> is what \<open>load_cache\<close> gives under that key after
  \<open>set_recent_commits\<close> and \<open>save_cache\<close>.
\<close>

theorem setters_keep_other_keys:
  "(k \<noteq> ''lines_changed'' \<longrightarrow>
      map_of (set_lines_changed cache a d t) k
        = map_of (case cache of None \<Rightarrow> [] | Some doc \<Rightarrow> doc) k)
   \<and> (k \<noteq> ''recent_commits'' \<longrightarrow>
      map_of (fst (set_recent_commits e cache fps w)) k
        = map_of (case cache of None \<Rightarrow> [] | Some doc \<Rightarrow> doc) k)
   \<and> (distinct (map fst data) \<longrightarrow>
      (\<exists>p. cache_file (save_cache e data w) = Parsed (JObj p)
           \<and> (\<forall>k v. map_of data k = Some v \<longrightarrow> map_of p k = Some v)))
   \<and> (load_cache w = Inr (Some held) \<and> distinct (map fst held)
        \<and> map_of held ''recent_commits'' = Some kept \<longrightarrow>
      (\<exists>p. load_cache (save_cache e (set_lines_changed (Some held) a d t) w) = Inr (Some p)
           \<and> map_of p ''recent_commits'' = Some kept))
   \<and> (load_cache w = Inr (Some held) \<and> distinct (map fst held)
        \<and> map_of held ''lines_changed'' = Some kept \<longrightarrow>
      (\<exists>p. load_cache (case set_recent_commits e (Some held) fps w of
                          (doc, w1) \<Rightarrow> save_cache e doc w1) = Inr (Some p)
           \<and> map_of p ''lines_changed'' = Some kept))"
proof (intro conjI impI)
  assume "k \<noteq> ''lines_changed''"
  then show "map_of (set_lines_changed cache a d t) k
             = map_of (case cache of None \<Rightarrow> [] | Some doc \<Rightarrow> doc) k"
    by (simp add: set_lines_changed_def update_conv')
next
  assume "k \<noteq> ''recent_commits''"
  then show "map_of (fst (set_recent_commits e cache fps w)) k
             = map_of (case cache of None \<Rightarrow> [] | Some doc \<Rightarrow> doc) k"
    by (simp add: set_recent_commits_def utc_now_iso_def update_conv')
next
  assume d: "distinct (map fst data)"
  have written: "cache_file (save_cache e data w)
              = Parsed (JObj (payload (utcnow_isoformat e (ticks w) @ ''Z'') data))"
    by (simp add: save_cache_def utc_now_iso_def)
  have "\<forall>k v. map_of data k = Some v \<longrightarrow>
          map_of (payload (utcnow_isoformat e (ticks w) @ ''Z'') data) k = Some v"
    by (simp add: map_of_payload [OF d] map_add_def)
  with written show "\<exists>p. cache_file (save_cache e data w) = Parsed (JObj p)
           \<and> (\<forall>k v. map_of data k = Some v \<longrightarrow> map_of p k = Some v)"
    by blast
next
  assume h: "load_cache w = Inr (Some held) \<and> distinct (map fst held)
        \<and> map_of held ''recent_commits'' = Some kept"
  define doc where "doc = set_lines_changed (Some held) a d t"
  from h have version: "py_eq_int (dict_get held ''version'' JNull) CACHE_VERSION"
    using load_cache_Some [of w held] by blast
  have "dict_get doc ''version'' JNull = dict_get held ''version'' JNull"
    by (simp add: doc_def set_lines_changed_def dict_get_def update_conv')
  with version have v: "py_eq_int (dict_get doc ''version'' JNull) CACHE_VERSION"
    by simp
  from h have keys: "distinct (map fst doc)"
    by (simp add: doc_def set_lines_changed_def distinct_update)
  from h have there: "map_of doc ''recent_commits'' = Some kept"
    by (simp add: doc_def set_lines_changed_def update_conv')
  from v keys there
  show "\<exists>p. load_cache (save_cache e (set_lines_changed (Some held) a d t) w) = Inr (Some p)
           \<and> map_of p ''recent_commits'' = Some kept"
    unfolding doc_def by (rule save_cache_keeps)
next
  assume h: "load_cache w = Inr (Some held) \<and> distinct (map fst held)
        \<and> map_of held ''lines_changed'' = Some kept"
  define now where "now = utcnow_isoformat e (ticks w) @ ''Z''"
  define w1 where "w1 = w\<lparr>ticks := Suc (ticks w)\<rparr>"
  define doc where "doc = AList.update ''recent_commits''
             (JObj [(''fingerprints'', fps), (''last_checked'', JStr now)]) held"
  have setter: "set_recent_commits e (Some held) fps w = (doc, w1)"
    by (simp add: set_recent_commits_def utc_now_iso_def doc_def now_def w1_def)
  from h have version: "py_eq_int (dict_get held ''version'' JNull) CACHE_VERSION"
    using load_cache_Some [of w held] by blast
  have "dict_get doc ''version'' JNull = dict_get held ''version'' JNull"
    by (simp add: doc_def dict_get_def update_conv')
  with version have v: "py_eq_int (dict_get doc ''version'' JNull) CACHE_VERSION"
    by simp
  from h have keys: "distinct (map fst doc)"
    by (simp add: doc_def distinct_update)
  from h have there: "map_of doc ''lines_changed'' = Some kept"
    by (simp add: doc_def update_conv')
  from v keys there
  have "\<exists>p. load_cache (save_cache e doc w1) = Inr (Some p) \<and> map_of p ''lines_changed'' = Some kept"
    by (rule save_cache_keeps)
  then show "\<exists>p. load_cache (case set_recent_commits e (Some held) fps w of
                          (doc, w1) \<Rightarrow> save_cache e doc w1) = Inr (Some p)
           \<and> map_of p ''lines_changed'' = Some kept"
    unfolding setter by simp
qed

theorem setters_keep_other_keys_witness:
  "load_cache cached_world = Inr (Some cached_doc)
   \<and> distinct (map fst cached_doc)
   \<and> map_of (set_lines_changed (Some cached_doc) (JInt 9) (JInt 4) (JStr ''t'')) ''recent_commits''
       = map_of cached_doc ''recent_commits''
   \<and> map_of (fst (set_recent_commits demo_env (Some cached_doc) (JList []) cached_world))
        ''lines_changed''
       = map_of cached_doc ''lines_changed''
   \<and> (\<exists>p. load_cache (save_cache demo_env
               (set_lines_changed (Some cached_doc) (JInt 9) (JInt 4) (JStr ''t'')) cached_world)
             = Inr (Some p)
          \<and> map_of p ''recent_commits''
              = Some (JObj [(''fingerprints'', JList [JStr ''o/r@abc1234'']),
                            (''last_checked'', JStr ''2024-01-01T00:00:00Z'')]))
   \<and> (\<exists>p. load_cache (case set_recent_commits demo_env (Some cached_doc) (JList []) cached_world of
                          (doc, w1) \<Rightarrow> save_cache demo_env doc w1) = Inr (Some p)
          \<and> map_of p ''lines_changed''
              = Some (JObj [(''additions'', JInt 8), (''deletions'', JInt 3),
                            (''last_commit_date'', JStr ''2024-01-01T00:00:00Z'')]))"
proof -
  have loaded: "load_cache cached_world = Inr (Some cached_doc)"
    by (simp add: load_cache_def cached_world_def cached_doc_def dict_get_def CACHE_VERSION_def)
  have keys: "distinct (map fst cached_doc)"
    by (simp add: cached_doc_def)
  have commits: "map_of cached_doc ''recent_commits''
       = Some (JObj [(''fingerprints'', JList [JStr ''o/r@abc1234'']),
                     (''last_checked'', JStr ''2024-01-01T00:00:00Z'')])"
    by (simp add: cached_doc_def)
  have lines: "map_of cached_doc ''lines_changed''
       = Some (JObj [(''additions'', JInt 8), (''deletions'', JInt 3),
                     (''last_commit_date'', JStr ''2024-01-01T00:00:00Z'')])"
    by (simp add: cached_doc_def)
  have differ: "''recent_commits'' \<noteq> ''lines_changed''" "''lines_changed'' \<noteq> ''recent_commits''"
    by simp_all
  note first = setters_keep_other_keys
    [where k = "''recent_commits''" and cache = "Some cached_doc" and a = "JInt 9" and d = "JInt 4"
       and t = "JStr ''t''" and e = demo_env and fps = "JList []" and w = cached_world
       and data = cached_doc and held = cached_doc
       and kept = "JObj [(''fingerprints'', JList [JStr ''o/r@abc1234'']),
                         (''last_checked'', JStr ''2024-01-01T00:00:00Z'')]"]
  note second = setters_keep_other_keys
    [where k = "''lines_changed''" and cache = "Some cached_doc" and a = "JInt 9" and d = "JInt 4"
       and t = "JStr ''t''" and e = demo_env and fps = "JList []" and w = cached_world
       and data = cached_doc and held = cached_doc
       and kept = "JObj [(''additions'', JInt 8), (''deletions'', JInt 3),
                         (''last_commit_date'', JStr ''2024-01-01T00:00:00Z'')]"]
  from first differ loaded keys commits
  have a: "map_of (set_lines_changed (Some cached_doc) (JInt 9) (JInt 4) (JStr ''t''))
              ''recent_commits'' = map_of cached_doc ''recent_commits''
     \<and> (\<exists>p. load_cache (save_cache demo_env
               (set_lines_changed (Some cached_doc) (JInt 9) (JInt 4) (JStr ''t'')) cached_world)
             = Inr (Some p)
          \<and> map_of p ''recent_commits''
              = Some (JObj [(''fingerprints'', JList [JStr ''o/r@abc1234'']),
                            (''last_checked'', JStr ''2024-01-01T00:00:00Z'')]))"
    by simp
  from second differ loaded keys lines
  have b: "map_of (fst (set_recent_commits demo_env (Some cached_doc) (JList []) cached_world))
              ''lines_changed'' = map_of cached_doc ''lines_changed''
     \<and> (\<exists>p. load_cache (case set_recent_commits demo_env (Some cached_doc) (JList []) cached_world of
                          (doc, w1) \<Rightarrow> save_cache demo_env doc w1) = Inr (Some p)
          \<and> map_of p ''lines_changed''
              = Some (JObj [(''additions'', JInt 8), (''deletions'', JInt 3),
                            (''last_commit_date'', JStr ''2024-01-01T00:00:00Z'')]))"
    by simp
  from loaded keys a b show ?thesis by blast
qed

text \<open>
  The claim as the specification words it has the update of one namespace never discard
  the persisted data of the other. In a run in which both reconcilers load the missing
  file and \<open>recent_commits\<close> saves first, the file holds the fingerprints after that
  save; \<open>lines_changed\<close> then saves the copy that it loaded, and the file holds
  \<open>lines_changed\<close> and no \<open>recent_commits\<close>.
\<close>

theorem setters_keep_other_keys_counterexample:
  "load_cache fresh_world = Inr None
   \<and> (\<exists>w2 w3 p q.
        commits_then_lines demo_env (JList [JStr ''o/r@abc1234'']) (JInt 8) (JInt 3)
          (JStr ''2024-01-01T00:00:00Z'') fresh_world = Inr (w2, w3)
        \<and> load_cache w2 = Inr (Some p)
        \<and> map_of p ''recent_commits''
            = Some (JObj [(''fingerprints'', JList [JStr ''o/r@abc1234'']),
                          (''last_checked'', JStr ''2024-01-01T00:00:00Z'')])
        \<and> load_cache w3 = Inr (Some q)
        \<and> map_of q ''recent_commits'' = None
        \<and> map_of q ''lines_changed'' \<noteq> None)"
proof -
  define w2 where "w2 = (case set_recent_commits demo_env None (JList [JStr ''o/r@abc1234''])
                              fresh_world of (doc, w1) \<Rightarrow> save_cache demo_env doc w1)"
  define w3 where "w3 = save_cache demo_env
       (set_lines_changed None (JInt 8) (JInt 3) (JStr ''2024-01-01T00:00:00Z'')) w2"
  have absent: "load_cache fresh_world = Inr None"
    by (simp add: load_cache_def fresh_world_def)
  have run: "commits_then_lines demo_env (JList [JStr ''o/r@abc1234'']) (JInt 8) (JInt 3)
          (JStr ''2024-01-01T00:00:00Z'') fresh_world = Inr (w2, w3)"
    by (simp add: commits_then_lines_def absent w2_def w3_def Let_def split: prod.splits)
  have clock: "utcnow_isoformat demo_env 0 = ''2024-01-01T00:00:00''"
    by code_simp
  have file2: "cache_file w2 = Parsed (JObj
        [(''version'', JInt 1), (''updated_at'', JStr (utcnow_isoformat demo_env 1 @ ''Z'')),
         (''recent_commits'', JObj [(''fingerprints'', JList [JStr ''o/r@abc1234'']),
                                   (''last_checked'', JStr ''2024-01-01T00:00:00Z'')])])"
    by (simp add: w2_def set_recent_commits_def utc_now_iso_def save_cache_def payload_def
          fresh_world_def CACHE_VERSION_def clock)
  have ticks2: "ticks w2 = 3"
    by (simp add: w2_def set_recent_commits_def utc_now_iso_def save_cache_def fresh_world_def)
  have file3: "cache_file w3 = Parsed (JObj
        [(''version'', JInt 1), (''updated_at'', JStr (utcnow_isoformat demo_env 3 @ ''Z'')),
         (''lines_changed'', JObj [(''additions'', JInt 8), (''deletions'', JInt 3),
                                  (''last_commit_date'', JStr ''2024-01-01T00:00:00Z'')])])"
    by (simp add: w3_def set_lines_changed_def utc_now_iso_def save_cache_def payload_def
          CACHE_VERSION_def ticks2)
  have p: "load_cache w2 = Inr (Some
        [(''version'', JInt 1), (''updated_at'', JStr (utcnow_isoformat demo_env 1 @ ''Z'')),
         (''recent_commits'', JObj [(''fingerprints'', JList [JStr ''o/r@abc1234'']),
                                   (''last_checked'', JStr ''2024-01-01T00:00:00Z'')])])"
    by (simp add: load_cache_def file2 dict_get_def CACHE_VERSION_def)
  have q: "load_cache w3 = Inr (Some
        [(''version'', JInt 1), (''updated_at'', JStr (utcnow_isoformat demo_env 3 @ ''Z'')),
         (''lines_changed'', JObj [(''additions'', JInt 8), (''deletions'', JInt 3),
                                  (''last_commit_date'', JStr ''2024-01-01T00:00:00Z'')])])"
    by (simp add: load_cache_def file3 dict_get_def CACHE_VERSION_def)
  show ?thesis
    apply (rule conjI [OF absent])
    apply (rule exI [of _ w2], rule exI [of _ w3])
    apply (intro exI conjI)
         apply (rule run)
        apply (rule p)
       apply simp
      apply (rule q)
     apply simp
    apply simp
    done
qed

text \<open>
  Claim C3. The specification has \<open>load\<close> return the absent document whenever the file
  fails to parse. The handler around \<open>json.load\<close> names \<open>json.JSONDecodeError\<close> alone. A
  cache file with a byte that is not UTF-8 makes \<open>json.load\<close> raise
  \<open>UnicodeDecodeError\<close>, which is a \<open>ValueError\<close> and not a \<open>JSONDecodeError\<close>: no handler
  catches it and \<open>load_cache\<close> raises it. The same holds for every exception of \<open>open\<close>
  and \<open>json.load\<close> other than \<open>JSONDecodeError\<close>.
\<close>

theorem load_cache_raises:
  "load_cache (w\<lparr>cache_file := Unreadable err\<rparr>) = Inl err"
  by (simp add: load_cache_def)

theorem load_cache_raises_witness:
  "load_cache (fresh_world\<lparr>cache_file := Unreadable UnicodeDecodeError\<rparr>) = Inl UnicodeDecodeError"
  using load_cache_raises [where w = fresh_world and err = UnicodeDecodeError] by simp

text \<open>
  What \<open>save_cache\<close> and \<open>load_cache\<close> do accomplish. For a dictionary \<open>x\<close> that has no
  \<open>version\<close> of its own, or one equal to the schema constant, \<open>load_cache\<close> after
  \<open>save_cache x\<close> yields a document that has every key of \<open>x\<close> with the value of \<open>x\<close>, and
  a \<open>version\<close> and an \<open>updated_at\<close> key. \<open>load_cache\<close> yields the absent document when
  the file is missing, when \<open>json.load\<close> raises \<open>JSONDecodeError\<close>, and when the file holds
  a dictionary whose \<open>version\<close> is missing or differs from the constant.
\<close>

lemma save_cache_then_load_cache:
  "(distinct (map fst x)
      \<and> (case map_of x ''version'' of None \<Rightarrow> True | Some v \<Rightarrow> py_eq_int v CACHE_VERSION) \<longrightarrow>
      (\<exists>doc. load_cache (save_cache e x w) = Inr (Some doc)
            \<and> (\<forall>k v. map_of x k = Some v \<longrightarrow> map_of doc k = Some v)
            \<and> map_of doc ''version'' \<noteq> None
            \<and> map_of doc ''updated_at'' \<noteq> None))
   \<and> load_cache (w\<lparr>cache_file := Missing\<rparr>) = Inr None
   \<and> load_cache (w\<lparr>cache_file := Malformed\<rparr>) = Inr None
   \<and> (\<not> py_eq_int (dict_get d ''version'' JNull) CACHE_VERSION \<longrightarrow>
        load_cache (w\<lparr>cache_file := Parsed (JObj d)\<rparr>) = Inr None)"
proof (intro conjI impI)
  assume hyp: "distinct (map fst x)
      \<and> (case map_of x ''version'' of None \<Rightarrow> True | Some v \<Rightarrow> py_eq_int v CACHE_VERSION)"
  define now where "now = utcnow_isoformat e (ticks w) @ ''Z''"
  define doc where "doc = payload now x"
  have m: "map_of doc = map_of [(''version'', JInt CACHE_VERSION), (''updated_at'', JStr now)]
                         ++ map_of x"
    using hyp by (simp add: doc_def map_of_payload)
  have written: "cache_file (save_cache e x w) = Parsed (JObj doc)"
    by (simp add: save_cache_def utc_now_iso_def doc_def now_def)
  have version: "py_eq_int (dict_get doc ''version'' JNull) CACHE_VERSION"
  proof (cases "map_of x ''version''")
    case None
    then have "dict_get doc ''version'' JNull = JInt CACHE_VERSION"
      by (simp add: dict_get_def m map_add_def)
    then show ?thesis by simp
  next
    case (Some v)
    then have "dict_get doc ''version'' JNull = v"
      by (simp add: dict_get_def m map_add_def)
    moreover from hyp Some have "py_eq_int v CACHE_VERSION" by simp
    ultimately show ?thesis by simp
  qed
  have loaded: "load_cache (save_cache e x w) = Inr (Some doc)"
    using version by (simp add: load_cache_def written)
  have keys: "\<forall>k v. map_of x k = Some v \<longrightarrow> map_of doc k = Some v"
    by (simp add: m map_add_def)
  have stamps: "map_of doc ''version'' \<noteq> None \<and> map_of doc ''updated_at'' \<noteq> None"
    by (simp add: m map_add_def split: option.splits)
  from loaded keys stamps
  show "\<exists>doc. load_cache (save_cache e x w) = Inr (Some doc)
            \<and> (\<forall>k v. map_of x k = Some v \<longrightarrow> map_of doc k = Some v)
            \<and> map_of doc ''version'' \<noteq> None
            \<and> map_of doc ''updated_at'' \<noteq> None"
    by blast
next
  show "load_cache (w\<lparr>cache_file := Missing\<rparr>) = Inr None"
    by (simp add: load_cache_def)
next
  show "load_cache (w\<lparr>cache_file := Malformed\<rparr>) = Inr None"
    by (simp add: load_cache_def)
next
  assume "\<not> py_eq_int (dict_get d ''version'' JNull) CACHE_VERSION"
  then show "load_cache (w\<lparr>cache_file := Parsed (JObj d)\<rparr>) = Inr None"
    by (simp add: load_cache_def)
qed

text \<open>
  \<open>save_cache\<close> puts the keys of its argument over the two that it provides
  (\<open>**data\<close> comes last in the dictionary display): a dictionary that brings a
  \<open>version\<close> other than the constant is saved with that version, and the next
  \<open>load_cache\<close> yields the absent document.
\<close>

lemma save_cache_foreign_version:
  "load_cache (save_cache demo_env [(''version'', JInt 2)] fresh_world) = Inr None"
  by (simp add: load_cache_def save_cache_def utc_now_iso_def payload_def dict_get_def
        CACHE_VERSION_def demo_env_def fresh_world_def)

section \<open>The configuration flag\<close>

lemma false_letters_not_space:
  "lower_char c \<in> set ''false'' \<Longrightarrow> \<not> is_space c"
  by (auto simp: is_space_def lower_char_def Let_def split: if_splits)

lemma strip_sandwich:
  assumes pre: "\<forall>c\<in>set pre. is_space c"
    and post: "\<forall>c\<in>set post. is_space c"
    and core: "\<forall>c\<in>set core. \<not> is_space c"
  shows "strip (pre @ core @ post) = core"
proof (cases core)
  case Nil
  have empty: "dropWhile is_space (pre @ post) = []"
    using pre post by (auto simp: dropWhile_eq_Nil_conv dest: set_dropWhileD)
  have "strip (pre @ post) = []"
    unfolding strip_def by (simp only: empty rev.simps dropWhile.simps)
  with Nil show ?thesis by simp
next
  case (Cons a as)
  have front: "dropWhile is_space (pre @ core @ post) = core @ post"
    using pre core Cons by (simp add: dropWhile_append2)
  from Cons have nonempty: "core \<noteq> []" by simp
  then have "last core \<in> set core" by simp
  with core have "\<not> is_space (last core)" by blast
  then have "\<not> is_space (hd (rev core))" by (simp add: hd_rev)
  then have keep: "dropWhile is_space (rev core) = rev core"
    by (simp add: dropWhile_eq_self_iff)
  have "dropWhile is_space (rev post @ rev core) = dropWhile is_space (rev core)"
    using post by (intro dropWhile_append2) simp
  with keep have behind: "dropWhile is_space (rev (core @ post)) = rev core"
    by (simp only: rev_append)
  show ?thesis
    unfolding strip_def by (simp only: front behind rev_rev_ident)
qed

lemma strip_decompose:
  "\<exists>pre post. s = pre @ strip s @ post
      \<and> (\<forall>c\<in>set pre. is_space c) \<and> (\<forall>c\<in>set post. is_space c)"
proof -
  define t where "t = dropWhile is_space s"
  have s: "s = takeWhile is_space s @ t" by (simp add: t_def)
  have "rev t = takeWhile is_space (rev t) @ dropWhile is_space (rev t)" by simp
  then have "t = rev (dropWhile is_space (rev t)) @ rev (takeWhile is_space (rev t))"
    by (metis rev_append rev_rev_ident)
  then have t: "t = strip s @ rev (takeWhile is_space (rev t))"
    by (simp add: strip_def t_def)
  have a: "\<forall>c\<in>set (takeWhile is_space s). is_space c"
    by (auto dest: set_takeWhileD)
  have b: "\<forall>c\<in>set (rev (takeWhile is_space (rev t))). is_space c"
    by (auto dest: set_takeWhileD)
  from s t have "s = takeWhile is_space s @ strip s @ rev (takeWhile is_space (rev t))"
    by simp
  with a b show ?thesis by blast
qed

text \<open>
  Claim C9, as amended. The value is stripped of surrounding whitespace before it is
  compared, so the flag is true exactly for the values that are set, not empty, and not
  the word \<open>false\<close> in any mix of cases with whitespace before or after it; it is false
  for the absent value, the empty value, and every such spelling of \<open>false\<close>.
\<close>

theorem ignore_forked_repos_flag_iff:
  "ignore_forked_repos_flag raw \<longleftrightarrow>
     (\<exists>s. raw = Some s \<and> s \<noteq> []
         \<and> \<not> (\<exists>pre core post. s = pre @ core @ post
                 \<and> (\<forall>c\<in>set pre. is_space c) \<and> (\<forall>c\<in>set post. is_space c)
                 \<and> lower core = ''false''))"
proof (cases raw)
  case None
  then show ?thesis by (simp add: ignore_forked_repos_flag_def)
next
  case (Some s)
  have "lower (strip s) = ''false'' \<longleftrightarrow>
        (\<exists>pre core post. s = pre @ core @ post
            \<and> (\<forall>c\<in>set pre. is_space c) \<and> (\<forall>c\<in>set post. is_space c)
            \<and> lower core = ''false'')"
  proof
    assume "lower (strip s) = ''false''"
    with strip_decompose [of s] show "\<exists>pre core post. s = pre @ core @ post
            \<and> (\<forall>c\<in>set pre. is_space c) \<and> (\<forall>c\<in>set post. is_space c)
            \<and> lower core = ''false''"
      by blast
  next
    assume "\<exists>pre core post. s = pre @ core @ post
            \<and> (\<forall>c\<in>set pre. is_space c) \<and> (\<forall>c\<in>set post. is_space c)
            \<and> lower core = ''false''"
    then obtain pre core post where s: "s = pre @ core @ post"
      and pre: "\<forall>c\<in>set pre. is_space c" and post: "\<forall>c\<in>set post. is_space c"
      and core: "lower core = ''false''"
      by blast
    have "\<forall>c\<in>set core. \<not> is_space c"
    proof
      fix c assume "c \<in> set core"
      then have "lower_char c \<in> set (lower core)" by (simp add: lower_def)
      then have "lower_char c \<in> set ''false''" by (simp only: core)
      then show "\<not> is_space c" by (rule false_letters_not_space)
    qed
    with pre post have "strip s = core" unfolding s by (rule strip_sandwich)
    with core show "lower (strip s) = ''false''" by simp
  qed
  with Some show ?thesis by (simp add: ignore_forked_repos_flag_def)
qed

text \<open>
  As the specification words it, every non-empty value whose content is not \<open>false\<close>
  up to case turns the flag on. The value \<open>" false"\<close> is such a value, and the flag is
  off.
\<close>

theorem ignore_forked_repos_flag_counterexample:
  "'' false'' \<noteq> [] \<and> lower '' false'' \<noteq> ''false''
   \<and> ignore_forked_repos_flag (Some '' false'') = False"
  by code_simp

theorem ignore_forked_repos_flag_iff_witness:
  "ignore_forked_repos_flag (Some ''1'') \<and> \<not> ignore_forked_repos_flag (Some ''False  '')
   \<and> (\<exists>pre core post. ''False  '' = pre @ core @ post
                 \<and> (\<forall>c\<in>set pre. is_space c) \<and> (\<forall>c\<in>set post. is_space c)
                 \<and> lower core = ''false'')"
proof -
  have a: "ignore_forked_repos_flag (Some ''1'')" by code_simp
  have b: "\<not> ignore_forked_repos_flag (Some ''False  '')" by code_simp
  from b show ?thesis
    using a ignore_forked_repos_flag_iff [of "Some ''False  ''"] by simp
qed

section \<open>The query client\<close>

text \<open>
  Claim C5, as amended. When the first transport delivers a decoded value, that value
  is the result (the empty dictionary for \<open>null\<close>) and the second transport is not used.
  When the first transport raises or its body does not decode, the second transport is
  used exactly once; a value it decodes is the result (the empty dictionary for
  \<open>null\<close>), and when it raises or its body does not decode the error reaches the caller:
  the second request sits in the handler, outside any \<open>try\<close>.
\<close>

theorem query_falls_back_once:
  "snd (query net q)
     = (if decoded (aiohttp_post net q) = None then [Aiohttp, Requests] else [Aiohttp])
   \<and> ((\<exists>err. fst (query net q) = Inl err) \<longleftrightarrow>
        decoded (aiohttp_post net q) = None \<and> decoded (requests_post net q) = None)
   \<and> (decoded (aiohttp_post net q) = Some b \<longrightarrow>
        fst (query net q) = Inr (if b = JNull then JObj [] else b))
   \<and> (decoded (aiohttp_post net q) = None \<and> decoded (requests_post net q) = Some b \<longrightarrow>
        fst (query net q) = Inr (if b = JNull then JObj [] else b))"
proof (cases "decoded (aiohttp_post net q)")
  case (Some first)
  then have "query net q = (Inr (if first = JNull then JObj [] else first), [Aiohttp])"
    by (simp add: query_def)
  with Some show ?thesis by simp
next
  case None
  show ?thesis
  proof (cases "decoded (requests_post net q)")
    case (Some second)
    with None have "query net q
        = (Inr (if second = JNull then JObj [] else second), [Aiohttp, Requests])"
      by (auto simp: query_def decoded_def split: option.splits)
    with None Some show ?thesis by simp
  next
    case second_failed: None
    with None have "snd (query net q) = [Aiohttp, Requests] \<and> (\<exists>err. fst (query net q) = Inl err)"
      by (auto simp: query_def decoded_def split: option.splits)
    with None second_failed show ?thesis by simp
  qed
qed

theorem query_falls_back_once_witness:
  "decoded (aiohttp_post limping_net ''{ viewer { login } }'') = None
   \<and> decoded (requests_post limping_net ''{ viewer { login } }'') = Some (JObj [(''data'', JNull)])
   \<and> snd (query limping_net ''{ viewer { login } }'') = [Aiohttp, Requests]
   \<and> fst (query limping_net ''{ viewer { login } }'') = Inr (JObj [(''data'', JNull)])"
  using query_falls_back_once
    [where net = limping_net and q = "''{ viewer { login } }''" and b = "JObj [(''data'', JNull)]"]
  by (simp add: limping_net_def decoded_def)

text \<open>
  The specification says that the operation never raises. With both transports down
  the connection error of the second one leaves \<open>query\<close>.
\<close>

theorem query_never_raises_counterexample:
  "fst (query dead_net ''{ viewer { login } }'') = Inl TransportError"
  by (simp add: query_def decoded_def dead_net_def)

lemma polls_append: "polls (xs @ ys) = polls xs + polls ys"
  by (simp add: polls_def)

lemma requests_sent_append: "requests_sent (xs @ ys) = requests_sent xs + requests_sent ys"
  by (simp add: requests_sent_def)

lemma pauses_append: "pauses (xs @ ys) = pauses xs @ pauses ys"
  by (simp add: pauses_def)

lemma path_at_Suc: "path_at path (Suc j) = path_at (drop_slash path) j"
  by (simp add: path_at_def funpow_swap1)

lemma path_at_0: "path_at path 0 = drop_slash path"
  by (simp add: path_at_def)

lemma path_at_funpow: "drop_slash ((drop_slash ^^ k) path) = path_at path k"
  by (simp add: path_at_def)

text \<open>One pass of the loop: what it adds to the trace, and when it pauses.\<close>

lemma rest_fallback_shape:
  "polls (snd (rest_fallback net i p ps)) = 0
   \<and> requests_sent (snd (rest_fallback net i p ps)) = 1
   \<and> pauses (snd (rest_fallback net i p ps)) = (if fallback_202 net i p then [2] else [])
   \<and> list_all (sent_with ps) (snd (rest_fallback net i p ps))
   \<and> (fallback_202 net i p \<longrightarrow> fst (rest_fallback net i p ps) = None)"
  by (simp add: rest_fallback_def polls_def requests_sent_def pauses_def sent_with_def
        fallback_202_def split: option.splits)

lemma rest_attempt_shape:
  "polls (snd (rest_attempt net i p ps)) = 1
   \<and> requests_sent (snd (rest_attempt net i p ps)) \<le> 2
   \<and> pauses (snd (rest_attempt net i p ps)) = (if answered_202 net i p then [2] else [])
   \<and> list_all (sent_with ps) (snd (rest_attempt net i p ps))
   \<and> (answered_202 net i p \<longrightarrow> fst (rest_attempt net i p ps) = None)"
proof -
  obtain res evs where fb: "rest_fallback net i p ps = (res, evs)"
    by (cases "rest_fallback net i p ps")
  have shape: "polls evs = 0 \<and> requests_sent evs = 1
     \<and> pauses evs = (if fallback_202 net i p then [2] else [])
     \<and> list_all (sent_with ps) evs \<and> (fallback_202 net i p \<longrightarrow> res = None)"
    using rest_fallback_shape [of net i p ps] by (simp add: fb)
  have via: "polls (Request Aiohttp p ps # evs) = 1
     \<and> requests_sent (Request Aiohttp p ps # evs) \<le> 2
     \<and> pauses (Request Aiohttp p ps # evs) = (if fallback_202 net i p then [2] else [])
     \<and> list_all (sent_with ps) (Request Aiohttp p ps # evs)"
    using shape by (simp add: polls_def requests_sent_def pauses_def sent_with_def)
  show ?thesis
  proof (cases "aiohttp_get net i p")
    case None
    then have "rest_attempt net i p ps = (res, Request Aiohttp p ps # evs)"
      by (simp add: rest_attempt_def fb)
    moreover from None have "answered_202 net i p = fallback_202 net i p"
      by (simp add: answered_202_def)
    ultimately show ?thesis using via shape by simp
  next
    case (Some r)
    show ?thesis
    proof (cases "status r = 202")
      case True
      with Some have "rest_attempt net i p ps = (None, [Request Aiohttp p ps, Sleep 2])"
        by (simp add: rest_attempt_def)
      moreover from Some True have "answered_202 net i p" by (simp add: answered_202_def)
      ultimately show ?thesis
        by (simp add: polls_def requests_sent_def pauses_def sent_with_def)
    next
      case False
      show ?thesis
      proof (cases "body r")
        case None
        with Some False have "rest_attempt net i p ps = (res, Request Aiohttp p ps # evs)"
          by (simp add: rest_attempt_def fb)
        moreover from Some False None have "answered_202 net i p = fallback_202 net i p"
          by (simp add: answered_202_def)
        ultimately show ?thesis using via shape by simp
      next
        case (Some b)
        with \<open>aiohttp_get net i p = Some r\<close> False
        have "snd (rest_attempt net i p ps) = [Request Aiohttp p ps]"
          by (simp add: rest_attempt_def)
        moreover from Some \<open>aiohttp_get net i p = Some r\<close> False
        have "\<not> answered_202 net i p" by (simp add: answered_202_def)
        ultimately show ?thesis
          by (simp add: polls_def requests_sent_def pauses_def sent_with_def)
      qed
    qed
  qed
qed

lemma rest_attempt_value:
  "aiohttp_get net i p = Some r \<Longrightarrow> status r \<noteq> 202 \<Longrightarrow> body r = Some b \<Longrightarrow> b \<noteq> JNull \<Longrightarrow>
   rest_attempt net i p ps = (Some (Inr b), [Request Aiohttp p ps])"
  by (simp add: rest_attempt_def)

lemma rest_attempt_null:
  "aiohttp_get net i p = Some r \<Longrightarrow> status r \<noteq> 202 \<Longrightarrow> body r = Some JNull \<Longrightarrow>
   rest_attempt net i p ps = (None, [Request Aiohttp p ps])"
  by (simp add: rest_attempt_def)

text \<open>
  The loop: as long as the passes give no result, the next pass is made, with the path
  stripped once more.
\<close>

lemma query_rest_loop_passes:
  assumes "\<forall>j<k. fst (rest_attempt net (i + j) (path_at path j) ps) = None"
  shows "query_rest_loop net (k + left) i path ps tr
         = query_rest_loop net left (i + k) ((drop_slash ^^ k) path) ps
             (tr @ concat (map (\<lambda>j. snd (rest_attempt net (i + j) (path_at path j) ps)) [0..<k]))"
  using assms
proof (induction k arbitrary: i path tr)
  case 0
  show ?case by simp
next
  case (Suc k)
  from Suc.prems have "fst (rest_attempt net (i + 0) (path_at path 0) ps) = None"
    by blast
  then obtain evs where att: "rest_attempt net i (drop_slash path) ps = (None, evs)"
    by (cases "rest_attempt net i (drop_slash path) ps") (simp add: path_at_0)
  have later: "\<forall>j<k. fst (rest_attempt net (Suc i + j) (path_at (drop_slash path) j) ps) = None"
  proof (intro allI impI)
    fix j assume "j < k"
    then have "Suc j < Suc k" by simp
    with Suc.prems have "fst (rest_attempt net (i + Suc j) (path_at path (Suc j)) ps) = None"
      by blast
    then show "fst (rest_attempt net (Suc i + j) (path_at (drop_slash path) j) ps) = None"
      by (simp add: path_at_Suc)
  qed
  have "query_rest_loop net (Suc k + left) i path ps tr
        = query_rest_loop net (k + left) (Suc i) (drop_slash path) ps (tr @ evs)"
    by (simp add: att)
  also have "\<dots> = query_rest_loop net left (Suc i + k) ((drop_slash ^^ k) (drop_slash path)) ps
         ((tr @ evs) @ concat (map (\<lambda>j. snd (rest_attempt net (Suc i + j)
                                              (path_at (drop_slash path) j) ps)) [0..<k]))"
    using later by (rule Suc.IH)
  also have "(drop_slash ^^ k) (drop_slash path) = (drop_slash ^^ Suc k) path"
    by (simp add: funpow_swap1)
  also have "(tr @ evs) @ concat (map (\<lambda>j. snd (rest_attempt net (Suc i + j)
                                              (path_at (drop_slash path) j) ps)) [0..<k])
        = tr @ concat (map (\<lambda>j. snd (rest_attempt net (i + j) (path_at path j) ps)) [0..<Suc k])"
    by (simp only: map_upt_Suc) (simp add: att path_at_0 path_at_Suc)
  finally show ?case by simp
qed

lemma query_rest_first_result:
  assumes go: "\<forall>j<k. fst (rest_attempt net j (path_at path j) ps) = None"
    and k: "k < 60"
    and hit: "fst (rest_attempt net k (path_at path k) ps) = Some res"
  shows "query_rest_loop net 60 0 path ps []
         = (res, concat (map (\<lambda>j. snd (rest_attempt net j (path_at path j) ps)) [0..<Suc k]))"
proof -
  from k obtain left where left: "60 = k + Suc left"
    by (metis add_Suc_right less_iff_Suc_add)
  from go have go0: "\<forall>j<k. fst (rest_attempt net (0 + j) (path_at path j) ps) = None"
    by simp
  obtain evs where att: "rest_attempt net k (path_at path k) ps = (Some res, evs)"
    using hit by (cases "rest_attempt net k (path_at path k) ps") simp
  have "query_rest_loop net 60 0 path ps [] = query_rest_loop net (k + Suc left) 0 path ps []"
    by (simp only: left)
  also have "\<dots> = query_rest_loop net (Suc left) (0 + k) ((drop_slash ^^ k) path) ps
       ([] @ concat (map (\<lambda>j. snd (rest_attempt net (0 + j) (path_at path j) ps)) [0..<k]))"
    using go0 by (rule query_rest_loop_passes)
  also have "\<dots> = (res, concat (map (\<lambda>j. snd (rest_attempt net j (path_at path j) ps)) [0..<k])
                        @ evs)"
    by (simp add: path_at_funpow att del: funpow.simps)
  also have "concat (map (\<lambda>j. snd (rest_attempt net j (path_at path j) ps)) [0..<k]) @ evs
       = concat (map (\<lambda>j. snd (rest_attempt net j (path_at path j) ps)) [0..<Suc k])"
    by (simp add: att)
  finally show ?thesis .
qed

lemma query_rest_no_result:
  assumes go: "\<forall>j<60. fst (rest_attempt net j (path_at path j) ps) = None"
  shows "query_rest_loop net 60 0 path ps []
         = (Inr (JObj []), concat (map (\<lambda>j. snd (rest_attempt net j (path_at path j) ps)) [0..<60]))"
proof -
  from go have go0: "\<forall>j<60. fst (rest_attempt net (0 + j) (path_at path j) ps) = None"
    by simp
  have "query_rest_loop net (60 + 0) 0 path ps []
     = query_rest_loop net 0 (0 + 60) ((drop_slash ^^ 60) path) ps
       ([] @ concat (map (\<lambda>j. snd (rest_attempt net (0 + j) (path_at path j) ps)) [0..<60]))"
    using go0 by (rule query_rest_loop_passes)
  then show ?thesis by (simp del: funpow.simps upt_Suc)
qed


lemma query_rest_loop_shape:
  assumes "requests_sent tr \<le> 2 * polls tr" and "length (pauses tr) \<le> polls tr"
    and "list_all (\<lambda>n. n = 2) (pauses tr)" and "list_all (sent_with ps) tr"
  shows "polls (snd (query_rest_loop net left i path ps tr)) \<le> polls tr + left
       \<and> requests_sent (snd (query_rest_loop net left i path ps tr))
           \<le> 2 * polls (snd (query_rest_loop net left i path ps tr))
       \<and> length (pauses (snd (query_rest_loop net left i path ps tr)))
           \<le> polls (snd (query_rest_loop net left i path ps tr))
       \<and> list_all (\<lambda>n. n = 2) (pauses (snd (query_rest_loop net left i path ps tr)))
       \<and> list_all (sent_with ps) (snd (query_rest_loop net left i path ps tr))"
  using assms
proof (induction left arbitrary: i path tr)
  case 0
  then show ?case by simp
next
  case (Suc left)
  obtain res evs where att: "rest_attempt net i (drop_slash path) ps = (res, evs)"
    by (cases "rest_attempt net i (drop_slash path) ps")
  have pass: "polls evs = 1 \<and> requests_sent evs \<le> 2
      \<and> pauses evs = (if answered_202 net i (drop_slash path) then [2] else [])
      \<and> list_all (sent_with ps) evs"
    using rest_attempt_shape [of net i "drop_slash path" ps] by (simp add: att)
  have grown: "requests_sent (tr @ evs) \<le> 2 * polls (tr @ evs)"
    "length (pauses (tr @ evs)) \<le> polls (tr @ evs)"
    "list_all (\<lambda>n. n = 2) (pauses (tr @ evs))"
    "list_all (sent_with ps) (tr @ evs)"
    using Suc.prems pass
    by (simp_all add: requests_sent_append polls_append pauses_append)
  show ?case
  proof (cases res)
    case None
    have "polls (snd (query_rest_loop net left (Suc i) (drop_slash path) ps (tr @ evs)))
            \<le> polls (tr @ evs) + left
       \<and> requests_sent (snd (query_rest_loop net left (Suc i) (drop_slash path) ps (tr @ evs)))
           \<le> 2 * polls (snd (query_rest_loop net left (Suc i) (drop_slash path) ps (tr @ evs)))
       \<and> length (pauses (snd (query_rest_loop net left (Suc i) (drop_slash path) ps (tr @ evs))))
           \<le> polls (snd (query_rest_loop net left (Suc i) (drop_slash path) ps (tr @ evs)))
       \<and> list_all (\<lambda>n. n = 2)
           (pauses (snd (query_rest_loop net left (Suc i) (drop_slash path) ps (tr @ evs))))
       \<and> list_all (sent_with ps)
           (snd (query_rest_loop net left (Suc i) (drop_slash path) ps (tr @ evs)))"
      using grown by (rule Suc.IH)
    with None pass show ?thesis by (simp add: att polls_append)
  next
    case (Some r)
    with grown pass show ?thesis by (simp add: att polls_append)
  qed
qed

lemma pauses_concat:
  "pauses (concat (map f js)) = concat (map (\<lambda>j. pauses (f j)) js)"
  by (induction js) (simp_all add: pauses_def)

lemma polls_concat:
  "(\<And>j. j \<in> set js \<Longrightarrow> polls (f j) = 1) \<Longrightarrow> polls (concat (map f js)) = length js"
  by (induction js) (simp_all add: polls_append, simp add: polls_def)

lemma concat_twos:
  "(\<And>j. j \<in> set js \<Longrightarrow> f j = [2::nat]) \<Longrightarrow> concat (map f js) = replicate (length js) 2"
  by (induction js) simp_all

lemma waiting_passes:
  assumes waits: "\<forall>j<k. answered_202 net j (path_at path j)"
  shows "(\<forall>j<k. fst (rest_attempt net j (path_at path j) ps) = None)
       \<and> pauses (concat (map (\<lambda>j. snd (rest_attempt net j (path_at path j) ps)) [0..<k]))
           = replicate k 2
       \<and> polls (concat (map (\<lambda>j. snd (rest_attempt net j (path_at path j) ps)) [0..<k])) = k"
proof (intro conjI allI impI)
  fix j assume "j < k"
  with waits have "answered_202 net j (path_at path j)" by blast
  then show "fst (rest_attempt net j (path_at path j) ps) = None"
    using rest_attempt_shape [of net j "path_at path j" ps] by blast
next
  have "\<And>j. j \<in> set [0..<k] \<Longrightarrow>
          pauses (snd (rest_attempt net j (path_at path j) ps)) = [2]"
    using waits rest_attempt_shape [of net _ "path_at path _" ps] by simp
  then have "concat (map (\<lambda>j. pauses (snd (rest_attempt net j (path_at path j) ps))) [0..<k])
             = replicate (length [0..<k]) 2"
    by (rule concat_twos)
  then show "pauses (concat (map (\<lambda>j. snd (rest_attempt net j (path_at path j) ps)) [0..<k]))
             = replicate k 2"
    by (simp add: pauses_concat)
next
  have "polls (concat (map (\<lambda>j. snd (rest_attempt net j (path_at path j) ps)) [0..<k]))
        = length [0..<k]"
    by (rule polls_concat) (simp add: rest_attempt_shape)
  then show "polls (concat (map (\<lambda>j. snd (rest_attempt net j (path_at path j) ps)) [0..<k])) = k"
    by simp
qed

lemma query_rest_waits_then_value:
  assumes waits: "\<forall>j<k. answered_202 net j (path_at path j)"
    and k: "k < 60"
    and r: "aiohttp_get net k (path_at path k) = Some r" "status r \<noteq> 202" "body r = Some b"
      "b \<noteq> JNull"
  shows "fst (query_rest_loop net 60 0 path ps []) = Inr b
       \<and> pauses (snd (query_rest_loop net 60 0 path ps [])) = replicate k 2
       \<and> polls (snd (query_rest_loop net 60 0 path ps [])) = Suc k"
proof -
  note w = waiting_passes [OF waits, of ps]
  have att: "rest_attempt net k (path_at path k) ps
             = (Some (Inr b), [Request Aiohttp (path_at path k) ps])"
    using r by (rule rest_attempt_value)
  have "query_rest_loop net 60 0 path ps []
        = (Inr b, concat (map (\<lambda>j. snd (rest_attempt net j (path_at path j) ps)) [0..<Suc k]))"
    using w k by (intro query_rest_first_result) (simp_all add: att)
  then have run: "query_rest_loop net 60 0 path ps []
        = (Inr b, concat (map (\<lambda>j. snd (rest_attempt net j (path_at path j) ps)) [0..<k])
                  @ [Request Aiohttp (path_at path k) ps])"
    by (simp add: att)
  show ?thesis
    unfolding run using w
    by (simp add: pauses_append polls_append) (simp add: pauses_def polls_def)
qed

lemma query_rest_waits_for_ever:
  assumes waits: "\<forall>j<60. answered_202 net j (path_at path j)"
  shows "fst (query_rest_loop net 60 0 path ps []) = Inr (JObj [])
       \<and> pauses (snd (query_rest_loop net 60 0 path ps [])) = replicate 60 2
       \<and> polls (snd (query_rest_loop net 60 0 path ps [])) = 60"
proof -
  note w = waiting_passes [OF waits, of ps]
  have run: "query_rest_loop net 60 0 path ps []
        = (Inr (JObj []),
           concat (map (\<lambda>j. snd (rest_attempt net j (path_at path j) ps)) [0..<60]))"
    using w by (intro query_rest_no_result) blast
  show ?thesis
    unfolding run using w by simp
qed


lemma path_at_settled:
  "drop_slash (drop_slash path) = drop_slash path \<Longrightarrow> path_at path j = drop_slash path"
  by (induction j) (simp_all add: path_at_def)

text \<open>
  Claim C6, as amended. For every network, path and parameters:
  \<^item> the resource-path query makes at most 60 passes, sends at most two requests in a
    pass (one on the first transport and, when that raises or its body does not decode,
    one on the second), pauses at most once in a pass and for 2 seconds each time, and
    sends every request with the parameters that it was given;
  \<^item> when each of the first \<open>k < 60\<close> passes gets status 202, from either transport, and
    pass \<open>k\<close> gets another status from the first transport with a body that decodes to a
    value other than \<open>null\<close>, the result is that value, after \<open>k\<close> pauses of 2 seconds and
    \<open>k + 1\<close> passes;
  \<^item> when each of the 60 passes gets status 202, from either transport, the result is
    the empty dictionary, after 60 pauses of 2 seconds and 60 passes;
  \<^item> whatever the passes get: the result is that of the first pass, among the 60, that
    gives one, and the empty dictionary when none does; the trace is that of the passes
    made, one after the other; pass \<open>j\<close> requests the path stripped of \<open>j + 1\<close> leading
    \<open>/\<close>, as far as it has them;
  \<^item> a pass that gets status 202, from either transport, gives no result, and a pass
    pauses (once, for 2 seconds) exactly when it gets status 202;
  \<^item> a pass whose first transport answers with another status and a body that decodes to
    a value other than \<open>null\<close> gives that value and sends nothing else; when the body
    decodes to \<open>null\<close> the pass gives no result and neither pauses nor asks the second
    transport;
  \<^item> for a path with at most one leading \<open>/\<close>, every pass requests the same path.
\<close>

theorem query_rest_polls:
  "polls (snd (query_rest net path params)) \<le> 60
   \<and> requests_sent (snd (query_rest net path params))
        \<le> 2 * polls (snd (query_rest net path params))
   \<and> length (pauses (snd (query_rest net path params)))
        \<le> polls (snd (query_rest net path params))
   \<and> list_all (\<lambda>n. n = 2) (pauses (snd (query_rest net path params)))
   \<and> list_all (sent_with (case params of None \<Rightarrow> [] | Some d \<Rightarrow> d))
        (snd (query_rest net path params))
   \<and> ((\<forall>j<k. answered_202 net j (path_at path j))
        \<and> k < 60 \<and> aiohttp_get net k (path_at path k) = Some r \<and> status r \<noteq> 202
        \<and> body r = Some b \<and> b \<noteq> JNull \<longrightarrow>
      fst (query_rest net path params) = Inr b
      \<and> pauses (snd (query_rest net path params)) = replicate k 2
      \<and> polls (snd (query_rest net path params)) = Suc k)
   \<and> ((\<forall>j<60. answered_202 net j (path_at path j)) \<longrightarrow>
      fst (query_rest net path params) = Inr (JObj [])
      \<and> pauses (snd (query_rest net path params)) = replicate 60 2
      \<and> polls (snd (query_rest net path params)) = 60)
   \<and> ((\<forall>j<n. fst (rest_attempt net j (path_at path j)
                      (case params of None \<Rightarrow> [] | Some d \<Rightarrow> d)) = None)
        \<and> n < 60
        \<and> fst (rest_attempt net n (path_at path n)
                 (case params of None \<Rightarrow> [] | Some d \<Rightarrow> d)) = Some res \<longrightarrow>
      query_rest net path params
        = (res, concat (map (\<lambda>j. snd (rest_attempt net j (path_at path j)
                                         (case params of None \<Rightarrow> [] | Some d \<Rightarrow> d)))
                          [0..<Suc n])))
   \<and> ((\<forall>j<60. fst (rest_attempt net j (path_at path j)
                       (case params of None \<Rightarrow> [] | Some d \<Rightarrow> d)) = None) \<longrightarrow>
      query_rest net path params
        = (Inr (JObj []),
           concat (map (\<lambda>j. snd (rest_attempt net j (path_at path j)
                                    (case params of None \<Rightarrow> [] | Some d \<Rightarrow> d)))
                     [0..<60])))
   \<and> (answered_202 net i p \<longrightarrow> fst (rest_attempt net i p ps) = None)
   \<and> pauses (snd (rest_attempt net i p ps)) = (if answered_202 net i p then [2] else [])
   \<and> (aiohttp_get net i p = Some r1 \<and> status r1 \<noteq> 202 \<and> body r1 = Some b1 \<and> b1 \<noteq> JNull \<longrightarrow>
      rest_attempt net i p ps = (Some (Inr b1), [Request Aiohttp p ps]))
   \<and> (aiohttp_get net i p = Some r1 \<and> status r1 \<noteq> 202 \<and> body r1 = Some JNull \<longrightarrow>
      rest_attempt net i p ps = (None, [Request Aiohttp p ps]))
   \<and> (drop_slash (drop_slash path) = drop_slash path \<longrightarrow> path_at path j = drop_slash path)"
proof -
  define ps0 where "ps0 = (case params of None \<Rightarrow> [] | Some d \<Rightarrow> d)"
  have run: "query_rest net path params = query_rest_loop net 60 0 path ps0 []"
    by (simp add: query_rest_def ps0_def)
  have empty: "requests_sent [] \<le> 2 * polls []" "length (pauses []) \<le> polls []"
    "list_all (\<lambda>n. n = 2) (pauses [])" "list_all (sent_with ps0) []"
    by (simp_all add: requests_sent_def pauses_def)
  have bounds: "polls (snd (query_rest net path params)) \<le> 60
     \<and> requests_sent (snd (query_rest net path params))
          \<le> 2 * polls (snd (query_rest net path params))
     \<and> length (pauses (snd (query_rest net path params)))
          \<le> polls (snd (query_rest net path params))
     \<and> list_all (\<lambda>n. n = 2) (pauses (snd (query_rest net path params)))
     \<and> list_all (sent_with ps0) (snd (query_rest net path params))"
    using query_rest_loop_shape [OF empty, of net 60 0 path]
    unfolding run by (simp add: polls_def)
  have waited: "(\<forall>j<k. answered_202 net j (path_at path j))
        \<and> k < 60 \<and> aiohttp_get net k (path_at path k) = Some r \<and> status r \<noteq> 202
        \<and> body r = Some b \<and> b \<noteq> JNull \<longrightarrow>
      fst (query_rest net path params) = Inr b
      \<and> pauses (snd (query_rest net path params)) = replicate k 2
      \<and> polls (snd (query_rest net path params)) = Suc k"
    unfolding run using query_rest_waits_then_value [of k net path r b ps0] by blast
  have busy: "(\<forall>j<60. answered_202 net j (path_at path j)) \<longrightarrow>
      fst (query_rest net path params) = Inr (JObj [])
      \<and> pauses (snd (query_rest net path params)) = replicate 60 2
      \<and> polls (snd (query_rest net path params)) = 60"
    unfolding run using query_rest_waits_for_ever [of net path ps0] by blast
  have first: "(\<forall>j<n. fst (rest_attempt net j (path_at path j) ps0) = None)
        \<and> n < 60 \<and> fst (rest_attempt net n (path_at path n) ps0) = Some res \<longrightarrow>
      query_rest net path params
        = (res, concat (map (\<lambda>j. snd (rest_attempt net j (path_at path j) ps0)) [0..<Suc n]))"
    unfolding run using query_rest_first_result [of n net path ps0 res] by blast
  have none: "(\<forall>j<60. fst (rest_attempt net j (path_at path j) ps0) = None) \<longrightarrow>
      query_rest net path params
        = (Inr (JObj []),
           concat (map (\<lambda>j. snd (rest_attempt net j (path_at path j) ps0)) [0..<60]))"
    unfolding run using query_rest_no_result [of net path ps0] by blast
  have pass: "(answered_202 net i p \<longrightarrow> fst (rest_attempt net i p ps) = None)
     \<and> pauses (snd (rest_attempt net i p ps)) = (if answered_202 net i p then [2] else [])"
    using rest_attempt_shape [of net i p ps] by blast
  have got: "aiohttp_get net i p = Some r1 \<and> status r1 \<noteq> 202 \<and> body r1 = Some b1 \<and> b1 \<noteq> JNull \<longrightarrow>
      rest_attempt net i p ps = (Some (Inr b1), [Request Aiohttp p ps])"
    using rest_attempt_value [of net i p r1 b1 ps] by blast
  have null: "aiohttp_get net i p = Some r1 \<and> status r1 \<noteq> 202 \<and> body r1 = Some JNull \<longrightarrow>
      rest_attempt net i p ps = (None, [Request Aiohttp p ps])"
    using rest_attempt_null [of net i p r1 ps] by blast
  have settled: "drop_slash (drop_slash path) = drop_slash path \<longrightarrow> path_at path j = drop_slash path"
    using path_at_settled [of path j] by blast
  from bounds waited busy first none pass got null settled
  show ?thesis unfolding ps0_def by blast
qed


text \<open>
  The specification has any success other than 202 return its decoded body at once.
  A response with status 200 whose body decodes to \<open>null\<close> is not returned: the loop
  goes on without a pause, and here the result is the body of the second response.
\<close>

theorem query_rest_null_body_counterexample:
  "aiohttp_get null_net 0 ''x'' = Some \<lparr>status = 200, body = Some JNull\<rparr>
   \<and> query_rest null_net ''/x'' None
       = (Inr (JObj [(''a'', JInt 1)]), [Request Aiohttp ''x'' [], Request Aiohttp ''x'' []])"
  by (simp add: null_net_def query_rest_def drop_slash_def rest_attempt_def numeral_eq_Suc Let_def)


theorem query_rest_polls_witness:
  "fst (query_rest detour_net ''/users/u/events'' None) = Inr (JList [JInt 1])
   \<and> pauses (snd (query_rest detour_net ''/users/u/events'' None)) = [2, 2]
   \<and> polls (snd (query_rest detour_net ''/users/u/events'' None)) = 3
   \<and> requests_sent (snd (query_rest detour_net ''/users/u/events'' None)) \<le> 6
   \<and> fst (query_rest busy_net ''/users/u/events'' None) = Inr (JObj [])
   \<and> pauses (snd (query_rest busy_net ''/users/u/events'' None)) = replicate 60 2
   \<and> polls (snd (query_rest busy_net ''/users/u/events'' None)) = 60
   \<and> query_rest relay_net ''//users/u/events'' None
       = (Inr (JObj [(''a'', JInt 1)]),
          [Request Aiohttp ''/users/u/events'' [], Request Requests ''/users/u/events'' [], Sleep 2,
           Request Aiohttp ''users/u/events'' [],
           Request Aiohttp ''users/u/events'' [], Request Requests ''users/u/events'' [],
           Request Aiohttp ''users/u/events'' [], Request Requests ''users/u/events'' []])"
proof -
  let ?reply = "\<lparr>status = 200, body = Some (JList [JInt 1])\<rparr>"
  have waits: "\<forall>j<2. answered_202 detour_net j (path_at ''/users/u/events'' j)"
    by (simp add: detour_net_def answered_202_def fallback_202_def)
  have hit: "aiohttp_get detour_net 2 (path_at ''/users/u/events'' 2) = Some ?reply"
    by (simp add: detour_net_def)
  have "fst (query_rest detour_net ''/users/u/events'' None) = Inr (JList [JInt 1])
     \<and> pauses (snd (query_rest detour_net ''/users/u/events'' None)) = replicate 2 2
     \<and> polls (snd (query_rest detour_net ''/users/u/events'' None)) = Suc 2
     \<and> requests_sent (snd (query_rest detour_net ''/users/u/events'' None))
          \<le> 2 * polls (snd (query_rest detour_net ''/users/u/events'' None))"
    using waits hit query_rest_polls
      [where net = detour_net and path = "''/users/u/events''" and params = None and k = 2
         and r = ?reply and b = "JList [JInt 1]" and n = 0 and res = "Inr JNull" and i = 0
         and p = "[]" and ps = "[]" and ?r1.0 = ?reply and ?b1.0 = JNull and j = 0]
    by simp
  then have detour: "fst (query_rest detour_net ''/users/u/events'' None) = Inr (JList [JInt 1])
     \<and> pauses (snd (query_rest detour_net ''/users/u/events'' None)) = [2, 2]
     \<and> polls (snd (query_rest detour_net ''/users/u/events'' None)) = 3
     \<and> requests_sent (snd (query_rest detour_net ''/users/u/events'' None)) \<le> 6"
    by (simp add: numeral_2_eq_2)
  have always: "\<forall>j<60. answered_202 busy_net j (path_at ''/users/u/events'' j)"
    by (simp add: busy_net_def answered_202_def)
  have busy: "fst (query_rest busy_net ''/users/u/events'' None) = Inr (JObj [])
     \<and> pauses (snd (query_rest busy_net ''/users/u/events'' None)) = replicate 60 2
     \<and> polls (snd (query_rest busy_net ''/users/u/events'' None)) = 60"
    using always query_rest_polls
      [where net = busy_net and path = "''/users/u/events''" and params = None and k = 0
         and r = ?reply and b = JNull and n = 0 and res = "Inr JNull" and i = 0
         and p = "[]" and ps = "[]" and ?r1.0 = ?reply and ?b1.0 = JNull and j = 0]
    by simp
  have paths: "path_at ''//users/u/events'' 0 = ''/users/u/events''"
    "path_at ''//users/u/events'' (Suc 0) = ''users/u/events''"
    "path_at ''//users/u/events'' (Suc (Suc 0)) = ''users/u/events''"
    "path_at ''//users/u/events'' (Suc (Suc (Suc 0))) = ''users/u/events''"
    by (simp_all add: path_at_def drop_slash_def)
  have passes: "rest_attempt relay_net 0 ''/users/u/events'' []
       = (None, [Request Aiohttp ''/users/u/events'' [],
                 Request Requests ''/users/u/events'' [], Sleep 2])"
    "rest_attempt relay_net (Suc 0) ''users/u/events'' []
       = (None, [Request Aiohttp ''users/u/events'' []])"
    "rest_attempt relay_net (Suc (Suc 0)) ''users/u/events'' []
       = (None, [Request Aiohttp ''users/u/events'' [], Request Requests ''users/u/events'' []])"
    "rest_attempt relay_net (Suc (Suc (Suc 0))) ''users/u/events'' []
       = (Some (Inr (JObj [(''a'', JInt 1)])),
          [Request Aiohttp ''users/u/events'' [], Request Requests ''users/u/events'' []])"
    by (simp_all add: relay_net_def rest_attempt_def rest_fallback_def)
  have go: "\<forall>j<3. fst (rest_attempt relay_net j (path_at ''//users/u/events'' j) []) = None"
    by (simp add: numeral_3_eq_3 All_less_Suc paths passes)
  have last: "fst (rest_attempt relay_net 3 (path_at ''//users/u/events'' 3) [])
              = Some (Inr (JObj [(''a'', JInt 1)]))"
    by (simp add: numeral_3_eq_3 paths passes)
  have "query_rest relay_net ''//users/u/events'' None
        = (Inr (JObj [(''a'', JInt 1)]),
           concat (map (\<lambda>j. snd (rest_attempt relay_net j (path_at ''//users/u/events'' j) []))
                     [0..<Suc 3]))"
    using go last query_rest_polls
      [where net = relay_net and path = "''//users/u/events''" and params = None and k = 0
         and r = ?reply and b = JNull and n = 3 and res = "Inr (JObj [(''a'', JInt 1)])" and i = 0
         and p = "[]" and ps = "[]" and ?r1.0 = ?reply and ?b1.0 = JNull and j = 0]
    by simp
  then have relay: "query_rest relay_net ''//users/u/events'' None
       = (Inr (JObj [(''a'', JInt 1)]),
          [Request Aiohttp ''/users/u/events'' [], Request Requests ''/users/u/events'' [], Sleep 2,
           Request Aiohttp ''users/u/events'' [],
           Request Aiohttp ''users/u/events'' [], Request Requests ''users/u/events'' [],
           Request Aiohttp ''users/u/events'' [], Request Requests ''users/u/events'' []])"
    by (simp add: numeral_3_eq_3 paths passes)
  from detour busy relay show ?thesis by blast
qed

section \<open>Language shares\<close>

lemma sum_sizes_numeric:
  "sum_sizes acc xs = Inr tot \<Longrightarrow>
     (\<forall>x\<in>set xs. py_num x \<noteq> None)
     \<and> tot = acc + sum_list (map (\<lambda>x. case py_num x of None \<Rightarrow> 0 | Some n \<Rightarrow> n) xs)"
proof (induction xs arbitrary: acc)
  case Nil
  then show ?case by simp
next
  case (Cons x xs)
  from Cons.prems obtain n where n: "py_num x = Some n"
    and rest: "sum_sizes (acc + n) xs = Inr tot"
    by (auto simp: int_add_def split: option.splits)
  from Cons.IH [OF rest] n show ?case by simp
qed

lemma shares_sum:
  "sum_list (map (\<lambda>x. 100 * (real_of_int (f x) / real_of_int t)) xs)
   = 100 * (real_of_int (sum_list (map f xs)) / real_of_int t)"
  by (induction xs) (simp_all add: algebra_simps add_divide_distrib)

lemma set_props_shares:
  assumes "set_props langs = Inr out"
  shows "\<exists>tot. sum_sizes 0 (map (\<lambda>kv. lang_size (snd kv)) out) = Inr tot
           \<and> (\<forall>kv\<in>set out. \<exists>n. py_num (lang_size (snd kv)) = Some n
                  \<and> lang_prop (snd kv) = Some (100 * (real_of_int n / real_of_int tot)))
           \<and> (out \<noteq> [] \<longrightarrow> tot \<noteq> 0 \<and>
                sum_list (map (\<lambda>kv. case lang_prop (snd kv) of None \<Rightarrow> 0 | Some x \<Rightarrow> x) out) = 100)"
proof -
  from assms obtain tot where tot: "sum_sizes 0 (map (\<lambda>kv. lang_size (snd kv)) langs) = Inr tot"
    by (auto simp: set_props_def split: sum.splits)
  show ?thesis
  proof (cases "langs = []")
    case True
    with assms tot have "out = []" by (simp add: set_props_def)
    then show ?thesis by simp
  next
    case False
    with assms tot have nz: "tot \<noteq> 0"
      by (auto simp: set_props_def split: if_splits)
    define share where
      "share = (\<lambda>kv::string \<times> lang_entry.
         100 * (real_of_int (case py_num (lang_size (snd kv)) of None \<Rightarrow> 0 | Some n \<Rightarrow> n)
                / real_of_int tot))"
    from assms tot False nz
    have out: "out = map (\<lambda>kv. (fst kv, (snd kv)\<lparr>lang_prop := Some (share kv)\<rparr>)) langs"
      by (simp add: set_props_def share_def)
    have sizes: "map (\<lambda>kv. lang_size (snd kv)) out = map (\<lambda>kv. lang_size (snd kv)) langs"
      by (simp add: out comp_def)
    from sum_sizes_numeric [OF tot]
    have num: "\<forall>kv\<in>set langs. py_num (lang_size (snd kv)) \<noteq> None"
      and whole: "tot = sum_list (map (\<lambda>kv. case py_num (lang_size (snd kv)) of
                                               None \<Rightarrow> 0 | Some n \<Rightarrow> n) langs)"
      by (simp_all add: comp_def)
    have each: "\<forall>kv\<in>set out. \<exists>n. py_num (lang_size (snd kv)) = Some n
                  \<and> lang_prop (snd kv) = Some (100 * (real_of_int n / real_of_int tot))"
      using num by (auto simp: out share_def)
    have "sum_list (map (\<lambda>kv. case lang_prop (snd kv) of None \<Rightarrow> 0 | Some x \<Rightarrow> x) out)
          = sum_list (map share langs)"
      by (simp add: out comp_def)
    also have "\<dots> = 100 * (real_of_int tot / real_of_int tot)"
      unfolding share_def by (simp only: shares_sum whole [symmetric])
    also have "\<dots> = 100" using nz by simp
    finally have "sum_list (map (\<lambda>kv. case lang_prop (snd kv) of None \<Rightarrow> 0 | Some x \<Rightarrow> x) out) = 100" .
    with nz each tot sizes show ?thesis by auto
  qed
qed

lemma add_language_kept:
  assumes "add_language c lang langs = Inr langs1"
    and "\<forall>kv\<in>set langs. lower (fst kv) \<notin> set (map lower (exclude_langs c))"
  shows "\<forall>kv\<in>set langs1. lower (fst kv) \<notin> set (map lower (exclude_langs c))"
  using assms
  by (auto simp: add_language_def split: sum.splits json.splits if_splits option.splits
        dest!: set_alist_update)

lemma add_languages_kept:
  "add_languages c edges langs = Inr langs1 \<Longrightarrow>
   \<forall>kv\<in>set langs. lower (fst kv) \<notin> set (map lower (exclude_langs c)) \<Longrightarrow>
   \<forall>kv\<in>set langs1. lower (fst kv) \<notin> set (map lower (exclude_langs c))"
proof (induction edges arbitrary: langs)
  case Nil
  then show ?case by simp
next
  case (Cons lang edges)
  from Cons.prems(1) obtain langs0 where one: "add_language c lang langs = Inr langs0"
    and rest: "add_languages c edges langs0 = Inr langs1"
    by (auto split: sum.splits)
  from add_language_kept [OF one Cons.prems(2)] Cons.IH [OF rest] show ?case by blast
qed

lemma add_repo_kept:
  assumes "add_repo c repo st = Inr st1"
    and "\<forall>kv\<in>set (languages st). lower (fst kv) \<notin> set (map lower (exclude_langs c))"
  shows "\<forall>kv\<in>set (languages st1). lower (fst kv) \<notin> set (map lower (exclude_langs c))"
proof (cases "languages st1 = languages st")
  case True
  with assms(2) show ?thesis by simp
next
  case False
  with assms(1) obtain edges where "add_languages c edges (languages st) = Inr (languages st1)"
    by (auto simp: add_repo_def split: sum.splits if_splits)
  from add_languages_kept [OF this assms(2)] show ?thesis .
qed

lemma add_repos_kept:
  "add_repos c rs st = Inr st1 \<Longrightarrow>
   \<forall>kv\<in>set (languages st). lower (fst kv) \<notin> set (map lower (exclude_langs c)) \<Longrightarrow>
   \<forall>kv\<in>set (languages st1). lower (fst kv) \<notin> set (map lower (exclude_langs c))"
proof (induction rs arbitrary: st)
  case Nil
  then show ?case by simp
next
  case (Cons r rs)
  from Cons.prems(1) obtain st0 where one: "add_repo c r st = Inr st0"
    and rest: "add_repos c rs st0 = Inr st1"
    by (auto split: sum.splits)
  from add_repo_kept [OF one Cons.prems(2)] Cons.IH [OF rest] show ?case by blast
qed

lemma page_step_kept:
  assumes "page_step c raw oc cc st = Inr (st1, nxt)"
    and "\<forall>kv\<in>set (languages st). lower (fst kv) \<notin> set (map lower (exclude_langs c))"
  shows "\<forall>kv\<in>set (languages st1). lower (fst kv) \<notin> set (map lower (exclude_langs c))"
proof -
  from assms(1) obtain rs nm where "add_repos c rs (st\<lparr>stats_name := nm\<rparr>) = Inr st1"
    by (auto simp: page_step_def split: sum.splits if_splits)
  from add_repos_kept [OF this] assms(2) show ?thesis by simp
qed

lemma get_stats_loop_kept:
  "get_stats_loop c q fuel oc cc st asked = Some (Inr (st1, asked1)) \<Longrightarrow>
   \<forall>kv\<in>set (languages st). lower (fst kv) \<notin> set (map lower (exclude_langs c)) \<Longrightarrow>
   \<forall>kv\<in>set (languages st1). lower (fst kv) \<notin> set (map lower (exclude_langs c))"
proof (induction fuel arbitrary: oc cc st asked)
  case 0
  then show ?case by simp
next
  case (Suc fuel)
  from Suc.prems(1) obtain raw0 where reply: "q (length asked) oc cc = Inr raw0"
    by (cases "q (length asked) oc cc") (auto split: if_splits)
  define raw where "raw = (if raw0 = JNull then JObj [] else raw0)"
  from Suc.prems(1) reply obtain st0 nxt where step: "page_step c raw oc cc st = Inr (st0, nxt)"
    by (cases "page_step c raw oc cc st") (auto simp: raw_def split: if_splits)
  from page_step_kept [OF step Suc.prems(2)]
  have kept: "\<forall>kv\<in>set (languages st0). lower (fst kv) \<notin> set (map lower (exclude_langs c))" .
  show ?case
  proof (cases nxt)
    case None
    with Suc.prems(1) reply step have "st1 = st0"
      by (auto simp: raw_def split: if_splits)
    with kept show ?thesis by simp
  next
    case (Some cursors)
    obtain oc1 cc1 where cursors: "cursors = (oc1, cc1)" by (cases cursors)
    from Suc.prems(1) reply step Some cursors
    have "get_stats_loop c q fuel oc1 cc1 st0 (asked @ [(oc, cc)]) = Some (Inr (st1, asked1))"
      by (auto simp: raw_def split: if_splits)
    from Suc.IH [OF this kept] show ?thesis .
  qed
qed

lemma set_props_keys: "set_props langs = Inr out \<Longrightarrow> map fst out = map fst langs"
  by (auto simp: set_props_def comp_def split: sum.splits if_splits)

text \<open>
  Claim C8, as amended. Whenever \<open>get_stats\<close> completes, the language table holds no
  excluded language, and every language in it has a numeric size and a \<open>prop\<close> equal to
  100 times the quotient of its size by the total size of the table; and when the table
  has at least one language, the total is not zero and the \<open>prop\<close>s add up to 100 (in
  exact arithmetic; the program computes them in floating point). With an empty table
  there is no \<open>prop\<close> and the sum is 0.
\<close>

theorem props_sum_to_100:
  assumes "get_stats c q fuel = Some (Inr (st, asked))"
  shows "(\<forall>kv\<in>set (languages st). lower (fst kv) \<notin> set (map lower (exclude_langs c)))
       \<and> (\<exists>tot. sum_sizes 0 (map (\<lambda>kv. lang_size (snd kv)) (languages st)) = Inr tot
           \<and> (\<forall>kv\<in>set (languages st). \<exists>n. py_num (lang_size (snd kv)) = Some n
                  \<and> lang_prop (snd kv) = Some (100 * (real_of_int n / real_of_int tot)))
           \<and> (languages st \<noteq> [] \<longrightarrow>
                tot \<noteq> 0 \<and> sum_list (map snd (languages_proportional st)) = 100))"
proof -
  from assms obtain st0 out
    where loop: "get_stats_loop c q fuel JNull JNull initial_stats [] = Some (Inr (st0, asked))"
      and ret: "set_props (languages st0) = Inr out"
      and st: "st = st0\<lparr>languages := out\<rparr>"
    by (auto simp: get_stats_def split: option.splits sum.splits)
  from st have langs: "languages st = out" by simp
  have "\<forall>kv\<in>set (languages initial_stats).
          lower (fst kv) \<notin> set (map lower (exclude_langs c))"
    by (simp add: initial_stats_def)
  from get_stats_loop_kept [OF loop this]
  have kept0: "\<forall>kv\<in>set (languages st0). lower (fst kv) \<notin> set (map lower (exclude_langs c))" .
  have same_keys: "fst ` set out = fst ` set (languages st0)"
    using set_props_keys [OF ret] by (metis set_map)
  have kept: "\<forall>kv\<in>set (languages st). lower (fst kv) \<notin> set (map lower (exclude_langs c))"
    unfolding langs
  proof
    fix kv assume "kv \<in> set out"
    then have "fst kv \<in> fst ` set (languages st0)"
      unfolding same_keys [symmetric] by (rule imageI)
    then obtain kv0 where "kv0 \<in> set (languages st0)" and "fst kv = fst kv0"
      by (rule imageE)
    with kept0 show "lower (fst kv) \<notin> set (map lower (exclude_langs c))"
      by simp
  qed
  have "map snd (languages_proportional st)
        = map (\<lambda>kv. case lang_prop (snd kv) of None \<Rightarrow> 0 | Some x \<Rightarrow> x) out"
    by (simp add: languages_proportional_def langs comp_def)
  with set_props_shares [OF ret]
  have "\<exists>tot. sum_sizes 0 (map (\<lambda>kv. lang_size (snd kv)) (languages st)) = Inr tot
           \<and> (\<forall>kv\<in>set (languages st). \<exists>n. py_num (lang_size (snd kv)) = Some n
                  \<and> lang_prop (snd kv) = Some (100 * (real_of_int n / real_of_int tot)))
           \<and> (languages st \<noteq> [] \<longrightarrow>
                tot \<noteq> 0 \<and> sum_list (map snd (languages_proportional st)) = 100)"
    by (simp only: langs)
  with kept show ?thesis by blast
qed

theorem props_sum_to_100_witness:
  "get_stats plain_config (paged_service two_pages) 5 =
     Some (Inr (\<lparr>stats_name = JStr ''u'', stargazers = 13, forks = 3,
                 languages =
                   [(''Python'',
                     \<lparr>lang_size = JInt 300, lang_occurrences = 1,
                      lang_color = JStr ''#3572A5'', lang_prop = Some 75\<rparr>),
                    (''C'',
                     \<lparr>lang_size = JInt 100, lang_occurrences = 2,
                      lang_color = JNull, lang_prop = Some 25\<rparr>)],
                 repos = [JStr ''u/a'', JStr ''u/b'', JStr ''o/r'']\<rparr>,
                [(JNull, JNull), (JStr ''c1'', JNull)]))
   \<and> sum_list (map snd (languages_proportional
        \<lparr>stats_name = JStr ''u'', stargazers = 13, forks = 3,
         languages =
           [(''Python'',
             \<lparr>lang_size = JInt 300, lang_occurrences = 1,
              lang_color = JStr ''#3572A5'', lang_prop = Some 75\<rparr>),
            (''C'',
             \<lparr>lang_size = JInt 100, lang_occurrences = 2,
              lang_color = JNull, lang_prop = Some 25\<rparr>)],
         repos = [JStr ''u/a'', JStr ''u/b'', JStr ''o/r'']\<rparr>)) = 100"
proof -
  have run: "get_stats plain_config (paged_service two_pages) 5 =
     Some (Inr (\<lparr>stats_name = JStr ''u'', stargazers = 13, forks = 3,
                 languages =
                   [(''Python'',
                     \<lparr>lang_size = JInt 300, lang_occurrences = 1,
                      lang_color = JStr ''#3572A5'', lang_prop = Some 75\<rparr>),
                    (''C'',
                     \<lparr>lang_size = JInt 100, lang_occurrences = 2,
                      lang_color = JNull, lang_prop = Some 25\<rparr>)],
                 repos = [JStr ''u/a'', JStr ''u/b'', JStr ''o/r'']\<rparr>,
                [(JNull, JNull), (JStr ''c1'', JNull)]))"
    by code_simp
  from props_sum_to_100 [OF run] have "sum_list (map snd (languages_proportional
        \<lparr>stats_name = JStr ''u'', stargazers = 13, forks = 3,
         languages =
           [(''Python'',
             \<lparr>lang_size = JInt 300, lang_occurrences = 1,
              lang_color = JStr ''#3572A5'', lang_prop = Some 75\<rparr>),
            (''C'',
             \<lparr>lang_size = JInt 100, lang_occurrences = 2,
              lang_color = JNull, lang_prop = Some 25\<rparr>)],
         repos = [JStr ''u/a'', JStr ''u/b'', JStr ''o/r'']\<rparr>)) = 100"
    by auto
  with run show ?thesis by blast
qed

text \<open>
  The specification has the \<open>prop\<close>s add up to about 100 for every discovery result.
  A discovery that finds no language (here the service has nothing to report) completes
  with no language entry at all, and the sum is 0.
\<close>

theorem props_sum_to_100_counterexample:
  "get_stats plain_config silent_service 1 =
     Some (Inr (\<lparr>stats_name = JStr ''No Name'', stargazers = 0, forks = 0,
                 languages = [], repos = []\<rparr>, [(JNull, JNull)]))
   \<and> sum_list (map snd (languages_proportional
        \<lparr>stats_name = JStr ''No Name'', stargazers = 0, forks = 0,
         languages = [], repos = []\<rparr>)) = 0"
  by code_simp

section \<open>Repository discovery\<close>

lemma py_eq_str: "py_eq x (JStr s) = (x = JStr s)"
  by (simp add: py_eq_def split: option.splits)

lemma int_sizes_update:
  "int_sizes langs \<Longrightarrow> lang_size v = JInt n \<Longrightarrow> int_sizes (AList.update k v langs)"
  unfolding int_sizes_def by (auto dest!: set_alist_update)

lemma add_language_encoded:
  assumes "int_sizes langs"
  shows "\<exists>langs1. add_language c (encode_lang l) langs = Inr langs1 \<and> int_sizes langs1"
proof (cases "lower (edge_name l) \<in> set (map lower (exclude_langs c))")
  case True
  then have "add_language c (encode_lang l) langs = Inr langs"
    by (simp add: add_language_def encode_lang_def dict_get_def)
  with assms show ?thesis by simp
next
  case False
  show ?thesis
  proof (cases "map_of langs (edge_name l)")
    case None
    with False have "add_language c (encode_lang l) langs =
        Inr (AList.update (edge_name l)
               \<lparr>lang_size = JInt (edge_size l), lang_occurrences = 1,
                lang_color = edge_color l, lang_prop = None\<rparr> langs)"
      by (simp add: add_language_def encode_lang_def dict_get_def)
    with assms show ?thesis by (simp add: int_sizes_update)
  next
    case (Some entry)
    then have "(edge_name l, entry) \<in> set langs" by (rule map_of_SomeD)
    with assms obtain n where n: "lang_size entry = JInt n"
      unfolding int_sizes_def by force
    with False Some have "add_language c (encode_lang l) langs =
        Inr (AList.update (edge_name l)
               (entry\<lparr>lang_size := JInt (n + edge_size l),
                      lang_occurrences := lang_occurrences entry + 1\<rparr>) langs)"
      by (simp add: add_language_def encode_lang_def dict_get_def py_iadd_def)
    with assms show ?thesis by (simp add: int_sizes_update)
  qed
qed

lemma add_languages_encoded:
  "int_sizes langs \<Longrightarrow>
   \<exists>langs1. add_languages c (map encode_lang ls) langs = Inr langs1 \<and> int_sizes langs1"
proof (induction ls arbitrary: langs)
  case Nil
  then show ?case by simp
next
  case (Cons l ls)
  from add_language_encoded [OF Cons.prems, of c l]
  obtain langs1 where one: "add_language c (encode_lang l) langs = Inr langs1"
    and ok: "int_sizes langs1" by blast
  from Cons.IH [OF ok] one show ?case by simp
qed

lemma add_repo_encoded:
  assumes "int_sizes (languages st)"
  shows "\<exists>st1. add_repo c (encode_node (Some n)) st = Inr st1 \<and> int_sizes (languages st1)
      \<and> repos st1 = (if JStr (node_name n) \<in> set (repos st) \<or> node_name n \<in> set (exclude_repos c)
                     then repos st else repos st @ [JStr (node_name n)])"
proof (cases "JStr (node_name n) \<in> set (repos st) \<or> node_name n \<in> set (exclude_repos c)")
  case True
  then have "add_repo c (encode_node (Some n)) st = Inr st"
    by (auto simp: add_repo_def encode_node_def dict_get_def list_ex_iff py_eq_str)
  with True assms show ?thesis by simp
next
  case False
  from add_languages_encoded [OF assms, of c "node_langs n"]
  obtain langs1 where langs1: "add_languages c (map encode_lang (node_langs n)) (languages st) = Inr langs1"
    and ok: "int_sizes langs1" by blast
  from False have "add_repo c (encode_node (Some n)) st =
      Inr (st\<lparr>repos := repos st @ [JStr (node_name n)],
              stargazers := stargazers st + node_stars n,
              forks := forks st + node_forks n, languages := langs1\<rparr>)"
    by (auto simp: add_repo_def encode_node_def dict_get_def list_ex_iff py_eq_str int_add_def
          langs1)
  with False ok show ?thesis by simp
qed

lemma add_repo_null: "add_repo c (encode_node None) st = Inr st"
  by (simp add: add_repo_def encode_node_def)

lemma node_names_Cons:
  "node_names (x # xs) = (case x of None \<Rightarrow> [] | Some n \<Rightarrow> [node_name n]) @ node_names xs"
  by (simp add: node_names_def)

lemma add_repos_encoded:
  "int_sizes (languages st) \<Longrightarrow>
   \<exists>st1. add_repos c (map encode_node xs) st = Inr st1 \<and> int_sizes (languages st1)
      \<and> set (repos st1) = set (repos st) \<union> JStr ` (set (node_names xs) - set (exclude_repos c))
      \<and> (distinct (repos st) \<longrightarrow> distinct (repos st1))"
proof (induction xs arbitrary: st)
  case Nil
  then show ?case by (simp add: node_names_def)
next
  case (Cons x xs)
  show ?case
  proof (cases x)
    case None
    from Cons.IH [OF Cons.prems] None show ?thesis
      by (simp add: add_repo_null node_names_Cons)
  next
    case (Some n)
    from add_repo_encoded [OF Cons.prems, of c n]
    obtain st1 where one: "add_repo c (encode_node (Some n)) st = Inr st1"
      and ok: "int_sizes (languages st1)"
      and rs: "repos st1 = (if JStr (node_name n) \<in> set (repos st) \<or> node_name n \<in> set (exclude_repos c)
                     then repos st else repos st @ [JStr (node_name n)])"
      by blast
    from Cons.IH [OF ok]
    obtain st2 where rest: "add_repos c (map encode_node xs) st1 = Inr st2"
      and ok2: "int_sizes (languages st2)"
      and set2: "set (repos st2) = set (repos st1) \<union> JStr ` (set (node_names xs) - set (exclude_repos c))"
      and d2: "distinct (repos st1) \<longrightarrow> distinct (repos st2)"
      by blast
    have run: "add_repos c (map encode_node (x # xs)) st = Inr st2"
      using one rest Some by simp
    have s: "set (repos st2) = set (repos st) \<union> JStr ` (set (node_names (x # xs)) - set (exclude_repos c))"
      using set2 rs Some by (auto simp: node_names_Cons)
    have d: "distinct (repos st) \<longrightarrow> distinct (repos st2)"
      using d2 rs by (auto split: if_splits)
    from run ok2 s d show ?thesis by blast
  qed
qed


lemma node_names_append: "node_names (xs @ ys) = node_names xs @ node_names ys"
  by (simp add: node_names_def)

lemma page_step_encoded_eq:
  "page_step c (encode_page pg) oc cc st =
     (case add_repos c
             (map encode_node
                (page_nodes (owned pg)
                 @ (if ignore_forked_repos c then [] else page_nodes (contributed pg))))
             (st\<lparr>stats_name := (case viewer_name pg of
                                   None \<Rightarrow> JStr (viewer_login pg) | Some s \<Rightarrow> JStr s)\<rparr>) of
        Inl err \<Rightarrow> Inl err
      | Inr st1 \<Rightarrow>
          Inr (st1, if further_page pg
                    then Some (encode_cursor (end_cursor (owned pg)),
                               encode_cursor (end_cursor (contributed pg)))
                    else None))"
  by (cases "ignore_forked_repos c"; cases "has_next_page (owned pg)";
      cases "has_next_page (contributed pg)"; cases "viewer_name pg")
     (simp_all add: page_step_def encode_page_def encode_edge_def dict_get_def py_iadd_def
        page_info_def further_page_def encode_cursor_def split: sum.splits)

lemma page_step_encoded:
  assumes "int_sizes (languages st)"
  shows "\<exists>st1. page_step c (encode_page pg) oc cc st
           = Inr (st1, if further_page pg
                       then Some (encode_cursor (end_cursor (owned pg)),
                                  encode_cursor (end_cursor (contributed pg)))
                       else None)
      \<and> int_sizes (languages st1)
      \<and> set (repos st1) = set (repos st) \<union> JStr ` (set (returned_names c pg) - set (exclude_repos c))
      \<and> (distinct (repos st) \<longrightarrow> distinct (repos st1))"
proof -
  define xs where "xs = page_nodes (owned pg)
                        @ (if ignore_forked_repos c then [] else page_nodes (contributed pg))"
  define st0 where "st0 = st\<lparr>stats_name := (case viewer_name pg of
                                   None \<Rightarrow> JStr (viewer_login pg) | Some s \<Rightarrow> JStr s)\<rparr>"
  have "int_sizes (languages st0)" using assms by (simp add: st0_def)
  from add_repos_encoded [OF this, of c xs]
  obtain st1 where run: "add_repos c (map encode_node xs) st0 = Inr st1"
    and ok: "int_sizes (languages st1)"
    and s: "set (repos st1) = set (repos st0) \<union> JStr ` (set (node_names xs) - set (exclude_repos c))"
    and d: "distinct (repos st0) \<longrightarrow> distinct (repos st1)"
    by blast
  have names: "node_names xs = returned_names c pg"
    by (simp add: xs_def returned_names_def node_names_append node_names_def)
  have step: "page_step c (encode_page pg) oc cc st
           = Inr (st1, if further_page pg
                       then Some (encode_cursor (end_cursor (owned pg)),
                                  encode_cursor (end_cursor (contributed pg)))
                       else None)"
    unfolding page_step_encoded_eq xs_def [symmetric] st0_def [symmetric]
    by (simp only: run sum.case)
  from step ok s d names show ?thesis by (simp add: st0_def)
qed

lemma cursor_ok_encode: "cursor_ok (encode_cursor x)"
  by (cases x) (simp_all add: encode_cursor_def)

lemma encode_page_not_null: "encode_page pg \<noteq> JNull"
  by (simp add: encode_page_def)

lemma get_stats_loop_pages:
  assumes "ps \<noteq> []"
    and "\<forall>pg\<in>set (butlast ps). further_page pg"
    and "\<not> further_page (last ps)"
    and "length ps \<le> fuel"
    and "\<forall>i<length ps. \<forall>a b. q (length asked + i) a b = Inr (encode_page (ps ! i))"
    and "int_sizes (languages st)"
    and "cursor_ok oc" and "cursor_ok cc"
  shows "\<exists>st1 asked1. get_stats_loop c q fuel oc cc st asked = Some (Inr (st1, asked1))
      \<and> length asked1 = length asked + length ps
      \<and> set (repos st1)
          = set (repos st) \<union> JStr ` ((\<Union>pg\<in>set ps. set (returned_names c pg)) - set (exclude_repos c))
      \<and> (distinct (repos st) \<longrightarrow> distinct (repos st1))"
  using assms
proof (induction ps arbitrary: fuel oc cc st asked)
  case Nil
  then show ?case by simp
next
  case (Cons pg rest)
  from Cons.prems(4) obtain f where fuel: "fuel = Suc f" and f: "length rest \<le> f"
    by (cases fuel) auto
  from Cons.prems(5) have reply: "q (length asked) oc cc = Inr (encode_page pg)"
    by force
  from page_step_encoded [OF Cons.prems(6), of c pg oc cc]
  obtain st1 where step: "page_step c (encode_page pg) oc cc st
           = Inr (st1, if further_page pg
                       then Some (encode_cursor (end_cursor (owned pg)),
                                  encode_cursor (end_cursor (contributed pg)))
                       else None)"
    and ok: "int_sizes (languages st1)"
    and s: "set (repos st1) = set (repos st) \<union> JStr ` (set (returned_names c pg) - set (exclude_repos c))"
    and d: "distinct (repos st) \<longrightarrow> distinct (repos st1)"
    by blast
  show ?case
  proof (cases "rest = []")
    case True
    with Cons.prems(3) have stop: "\<not> further_page pg" by simp
    have "get_stats_loop c q fuel oc cc st asked = Some (Inr (st1, asked @ [(oc, cc)]))"
      using Cons.prems(7,8) reply step stop
      by (simp add: fuel encode_page_not_null)
    with True s d show ?thesis by simp
  next
    case False
    with Cons.prems(2) have go: "further_page pg" by simp
    define oc1 where "oc1 = encode_cursor (end_cursor (owned pg))"
    define cc1 where "cc1 = encode_cursor (end_cursor (contributed pg))"
    have unfold: "get_stats_loop c q fuel oc cc st asked
                  = get_stats_loop c q f oc1 cc1 st1 (asked @ [(oc, cc)])"
      using Cons.prems(7,8) reply step go
      by (simp add: fuel encode_page_not_null oc1_def cc1_def)
    have a2: "\<forall>pg\<in>set (butlast rest). further_page pg"
      using Cons.prems(2) False by simp
    have a3: "\<not> further_page (last rest)"
      using Cons.prems(3) False by simp
    have a5: "\<forall>i<length rest. \<forall>a b.
                q (length (asked @ [(oc, cc)]) + i) a b = Inr (encode_page (rest ! i))"
    proof (intro allI impI)
      fix i a b assume "i < length rest"
      then have "Suc i < length (pg # rest)" by simp
      with Cons.prems(5) have "q (length asked + Suc i) a b = Inr (encode_page ((pg # rest) ! Suc i))"
        by blast
      then show "q (length (asked @ [(oc, cc)]) + i) a b = Inr (encode_page (rest ! i))"
        by simp
    qed
    have c1: "cursor_ok oc1" "cursor_ok cc1"
      by (simp_all add: oc1_def cc1_def cursor_ok_encode)
    from Cons.IH [OF False a2 a3 f a5 ok c1]
    obtain st2 asked2 where run: "get_stats_loop c q f oc1 cc1 st1 (asked @ [(oc, cc)])
                                   = Some (Inr (st2, asked2))"
      and len: "length asked2 = length (asked @ [(oc, cc)]) + length rest"
      and s2: "set (repos st2)
          = set (repos st1) \<union> JStr ` ((\<Union>pg\<in>set rest. set (returned_names c pg)) - set (exclude_repos c))"
      and d2: "distinct (repos st1) \<longrightarrow> distinct (repos st2)"
      by blast
    have s3: "set (repos st2)
          = set (repos st) \<union> JStr ` ((\<Union>pg\<in>set (pg # rest). set (returned_names c pg)) - set (exclude_repos c))"
      using s s2 by auto
    from unfold run len s3 d d2 show ?thesis by simp
  qed
qed

text \<open>
  Claim C7, as amended. For every sequence of \<open>N\<close> replies of the form that the overview
  query asks for, in which every reply but the last announces a further page on some
  edge and the last announces none on either edge, the discovery loop returns after
  exactly \<open>N\<close> queries (any fuel of at least \<open>N\<close> is enough), and the set of repositories
  it leaves has no identifier twice and holds exactly the identifiers of the owned nodes
  returned and, unless forked contributions are to be ignored, of the contributed-to nodes
  returned, without the excluded identifiers.
\<close>

theorem discovery_pages:
  assumes "pages \<noteq> []"
    and "\<forall>pg\<in>set (butlast pages). further_page pg"
    and "\<not> further_page (last pages)"
    and "length pages \<le> fuel"
  shows "\<exists>st asked.
           get_stats_loop c (paged_service pages) fuel JNull JNull initial_stats []
             = Some (Inr (st, asked))
         \<and> length asked = length pages
         \<and> distinct (repos st)
         \<and> set (repos st)
             = JStr ` ((\<Union>pg\<in>set pages. set (returned_names c pg)) - set (exclude_repos c))"
proof -
  have replies: "\<forall>i<length pages. \<forall>a b.
      paged_service pages (length ([] :: (json \<times> json) list) + i) a b
        = Inr (encode_page (pages ! i))"
    by (simp add: paged_service_def)
  have start: "int_sizes (languages initial_stats)"
    by (simp add: int_sizes_def initial_stats_def)
  have fresh: "repos initial_stats = []"
    by (simp add: initial_stats_def)
  from get_stats_loop_pages [OF assms replies start, of JNull JNull c]
  obtain st asked where
    "get_stats_loop c (paged_service pages) fuel JNull JNull initial_stats [] = Some (Inr (st, asked))"
    "length asked = length pages"
    "set (repos st)
       = JStr ` ((\<Union>pg\<in>set pages. set (returned_names c pg)) - set (exclude_repos c))"
    "distinct (repos st)"
    by (auto simp: fresh)
  then show ?thesis by blast
qed

theorem discovery_pages_witness:
  "two_pages \<noteq> []
   \<and> further_page (hd two_pages)
   \<and> \<not> further_page (last two_pages)
   \<and> length two_pages \<le> 2
   \<and> (\<exists>st asked.
         get_stats_loop plain_config (paged_service two_pages) 2 JNull JNull initial_stats []
           = Some (Inr (st, asked))
       \<and> length asked = length two_pages
       \<and> distinct (repos st)
       \<and> set (repos st)
           = JStr ` ((\<Union>pg\<in>set two_pages. set (returned_names plain_config pg))
                     - set (exclude_repos plain_config)))"
proof -
  have h1: "two_pages \<noteq> []" by (simp add: two_pages_def)
  have h2: "\<forall>pg\<in>set (butlast two_pages). further_page pg"
    by (simp add: two_pages_def further_page_def)
  have h3: "\<not> further_page (last two_pages)"
    by (simp add: two_pages_def further_page_def)
  have h4: "length two_pages \<le> 2" by (simp add: two_pages_def)
  have h5: "further_page (hd two_pages)"
    by (simp add: two_pages_def further_page_def)
  from discovery_pages [OF h1 h2 h3 h4, of plain_config] h1 h3 h4 h5
  show ?thesis by blast
qed

text \<open>
  The specification has the result hold all the nodes returned. With forked
  contributions ignored, the repository \<open>o/r\<close> that the second page returns on the
  contributed-to edge is not in the set.
\<close>

theorem discovery_pages_counterexample:
  "page_nodes (contributed (two_pages ! 1)) = [None, Some repo_r]
   \<and> node_name repo_r = ''o/r''
   \<and> get_stats_loop forkless_config (paged_service two_pages) 2 JNull JNull initial_stats []
       = Some (Inr (\<lparr>stats_name = JStr ''u'', stargazers = 3, forks = 1,
                     languages =
                       [(''Python'',
                         \<lparr>lang_size = JInt 300, lang_occurrences = 1,
                          lang_color = JStr ''#3572A5'', lang_prop = None\<rparr>),
                        (''C'',
                         \<lparr>lang_size = JInt 100, lang_occurrences = 2,
                          lang_color = JNull, lang_prop = None\<rparr>)],
                     repos = [JStr ''u/a'', JStr ''u/b'']\<rparr>,
                    [(JNull, JNull), (JStr ''c1'', JNull)]))"
proof -
  have a: "page_nodes (contributed (two_pages ! 1)) = [None, Some repo_r]"
    by (simp add: two_pages_def)
  have b: "node_name repo_r = ''o/r''"
    by (simp add: repo_r_def)
  have c: "get_stats_loop forkless_config (paged_service two_pages) 2 JNull JNull initial_stats []
       = Some (Inr (\<lparr>stats_name = JStr ''u'', stargazers = 3, forks = 1,
                     languages =
                       [(''Python'',
                         \<lparr>lang_size = JInt 300, lang_occurrences = 1,
                          lang_color = JStr ''#3572A5'', lang_prop = None\<rparr>),
                        (''C'',
                         \<lparr>lang_size = JInt 100, lang_occurrences = 2,
                          lang_color = JNull, lang_prop = None\<rparr>)],
                     repos = [JStr ''u/a'', JStr ''u/b'']\<rparr>,
                    [(JNull, JNull), (JStr ''c1'', JNull)]))"
    by code_simp
  from a b c show ?thesis by blast
qed

section \<open>Lines changed: the cold path\<close>

text \<open>
  Claim C4. On a cold run (the cache yields no \<open>lines_changed\<close>), with one
  repository discovered whose contributor statistics hold two weeks of the tracked user
  with 5 and 3 additions and 2 and 1 deletions, \<open>lines_changed\<close> returns \<open>(8, 3)\<close> after
  one query, and the cache file written holds \<open>lines_changed\<close> with additions 8,
  deletions 3 and, as the watermark, the reading of the clock at the logical time that
  follows the query.
\<close>

theorem cold_run_two_weeks:
  assumes load: "load_cache w = Inr cache"
    and cold: "\<not> truthy (get_lines_changed cache)"
    and keys: "distinct (map fst (case cache of None \<Rightarrow> [] | Some d \<Rightarrow> d))"
    and reply: "rest_reply e (ticks w) (''/repos/'' @ repo @ ''/stats/contributors'')
                = Inr (two_weeks_reply (username c))"
  shows "\<exists>w1 doc. lines_changed e c [repo] w = Inr ((JInt 8, JInt 3), w1)
      \<and> fetched w1 = fetched w @ [''/repos/'' @ repo @ ''/stats/contributors'']
      \<and> cache_file w1 = Parsed (JObj doc)
      \<and> map_of doc ''lines_changed''
          = Some (JObj [(''additions'', JInt 8), (''deletions'', JInt 3),
                        (''last_commit_date'', JStr (utcnow_isoformat e (Suc (ticks w)) @ ''Z''))])"
proof -
  define w1 where "w1 = w\<lparr>ticks := Suc (ticks w),
                           fetched := fetched w @ [''/repos/'' @ repo @ ''/stats/contributors'']\<rparr>"
  define now where "now = utcnow_isoformat e (Suc (ticks w)) @ ''Z''"
  define doc0 where "doc0 = set_lines_changed cache (JInt 8) (JInt 3) (JStr now)"
  have scan: "scan_repos e c [repo] (0, 0) w = Inr ((8, 3), w1)"
    using reply
    by (simp add: rest_call_def two_weeks_reply_def w1_def add_author_def dict_get_def
          int_add_def)
  have run: "lines_changed e c [repo] w = Inr ((JInt 8, JInt 3), save_cache e doc0 (w1\<lparr>ticks := Suc (ticks w1)\<rparr>))"
    using cold
    by (simp add: lines_changed_def load scan utc_now_iso_def doc0_def now_def
          del: scan_repos.simps)
       (simp add: w1_def)
  have d: "distinct (map fst doc0)"
    unfolding doc0_def set_lines_changed_def using keys by (rule distinct_update)
  have kept: "map_of doc0 ''lines_changed''
          = Some (JObj [(''additions'', JInt 8), (''deletions'', JInt 3),
                        (''last_commit_date'', JStr now)])"
    by (simp add: doc0_def set_lines_changed_def update_conv')
  define stamp where "stamp = utcnow_isoformat e (ticks (w1\<lparr>ticks := Suc (ticks w1)\<rparr>)) @ ''Z''"
  have written: "cache_file (save_cache e doc0 (w1\<lparr>ticks := Suc (ticks w1)\<rparr>))
                 = Parsed (JObj (payload stamp doc0))"
    by (simp add: save_cache_def utc_now_iso_def stamp_def)
  have same: "fetched (save_cache e doc0 (w1\<lparr>ticks := Suc (ticks w1)\<rparr>))
              = fetched w @ [''/repos/'' @ repo @ ''/stats/contributors'']"
    by (simp add: save_cache_def utc_now_iso_def w1_def)
  have "map_of (payload stamp doc0) ''lines_changed''
          = Some (JObj [(''additions'', JInt 8), (''deletions'', JInt 3),
                        (''last_commit_date'', JStr now)])"
    by (simp add: map_of_payload [OF d] map_add_def kept)
  with run written same show ?thesis
    unfolding now_def by blast
qed


theorem cold_run_two_weeks_witness:
  "load_cache fresh_world = Inr None
   \<and> \<not> truthy (get_lines_changed None)
   \<and> rest_reply cold_env (ticks fresh_world) (''/repos/'' @ ''u/a'' @ ''/stats/contributors'')
       = Inr (two_weeks_reply (username plain_config))
   \<and> (\<exists>w1 doc. lines_changed cold_env plain_config [''u/a''] fresh_world
                   = Inr ((JInt 8, JInt 3), w1)
        \<and> fetched w1 = fetched fresh_world @ [''/repos/'' @ ''u/a'' @ ''/stats/contributors'']
        \<and> cache_file w1 = Parsed (JObj doc)
        \<and> map_of doc ''lines_changed''
            = Some (JObj [(''additions'', JInt 8), (''deletions'', JInt 3),
                          (''last_commit_date'', JStr ''2024-01-01T00:00:01Z'')]))"
proof -
  have h1: "load_cache fresh_world = Inr None"
    by (simp add: load_cache_def fresh_world_def)
  have h2: "\<not> truthy (get_lines_changed None)"
    by (simp add: get_lines_changed_def)
  have h3: "distinct (map fst (case None :: dict option of None \<Rightarrow> [] | Some d \<Rightarrow> d))"
    by simp
  have h4: "rest_reply cold_env (ticks fresh_world) (''/repos/'' @ ''u/a'' @ ''/stats/contributors'')
       = Inr (two_weeks_reply (username plain_config))"
    by (simp add: cold_env_def plain_config_def)
  have clock: "utcnow_isoformat cold_env (Suc (ticks fresh_world)) @ ''Z'' = ''2024-01-01T00:00:01Z''"
    by code_simp
  from cold_run_two_weeks [OF h1 h2 h3 h4] h1 h2 h4 show ?thesis
    unfolding clock by blast
qed

section \<open>Recent commits\<close>

lemma rest_call_effect:
  "rest_call e path w = Inr (v, w1) \<Longrightarrow>
   cache_file w1 = cache_file w \<and> fetched w1 = fetched w @ [path]"
  by (auto simp: rest_call_def split: sum.splits)

lemma fetch_commit_detail_effect:
  assumes "fetch_commit_detail e fp commits w = Inr (cs, w1)"
  shows "cache_file w1 = cache_file w \<and> length (fetched w1) = Suc (length (fetched w))"
proof -
  from assms obtain s where fp: "fp = JStr s"
    by (cases fp) (simp_all add: fetch_commit_detail_def)
  from assms obtain repo_full short_sha
    where u1: "unpack2 (rsplit1 CHR ''@'' s) = Inr (repo_full, short_sha)"
    by (cases "unpack2 (rsplit1 CHR ''@'' s)") (auto simp: fetch_commit_detail_def fp)
  from assms obtain owner repo
    where u2: "unpack2 (split_on CHR ''/'' repo_full) = Inr (owner, repo)"
    by (cases "unpack2 (split_on CHR ''/'' repo_full)") (auto simp: fetch_commit_detail_def fp u1)
  from assms obtain data w0
    where rc: "rest_call e (detail_path owner repo short_sha) w = Inr (data, w0)"
    by (cases "rest_call e (detail_path owner repo short_sha) w")
       (auto simp: fetch_commit_detail_def fp u1 u2)
  from assms have "w1 = w0"
    by (simp add: fetch_commit_detail_def fp u1 u2 rc
          split: sum.splits bool.splits json.splits list.splits)
  with rest_call_effect [OF rc] show ?thesis by simp
qed

lemma fetch_commit_details_loop_effect:
  "fetch_commit_details_loop e fps commits w = Inr (cs, w1) \<Longrightarrow>
   cache_file w1 = cache_file w \<and> length (fetched w1) = length (fetched w) + length fps"
proof (induction fps arbitrary: commits w)
  case Nil
  then show ?case by simp
next
  case (Cons fp fps)
  from Cons.prems obtain cs0 w0 where one: "fetch_commit_detail e fp commits w = Inr (cs0, w0)"
    and rest: "fetch_commit_details_loop e fps cs0 w0 = Inr (cs, w1)"
    by (auto split: sum.splits)
  from fetch_commit_detail_effect [OF one] Cons.IH [OF rest] show ?case by simp
qed

lemma recent_commit_fingerprints_effect:
  assumes "recent_commit_fingerprints e c limit w = Inr (fps, w1)"
  shows "cache_file w1 = cache_file w \<and> length (fetched w1) = Suc (length (fetched w))"
proof -
  from assms obtain path v where "rest_call e path w = Inr (v, w1)"
    by (auto simp: recent_commit_fingerprints_def split: sum.splits)
  from rest_call_effect [OF this] show ?thesis by simp
qed

text \<open>
  Claim C1, as amended. No commit detail is cached, only fingerprints. When the fresh
  fingerprints are not empty and equal the cached ones, \<open>recent_commits\<close> is the detail
  fetch for that list: it writes nothing to the cache, and a run that returns has made
  one query for the events and one detail query for each fingerprint.
\<close>

theorem unchanged_fingerprints_refetch:
  assumes load: "load_cache w = Inr cache"
    and cached: "truthy (get_recent_commits cache)"
    and old: "py_item (get_recent_commits cache) ''fingerprints'' = Inr (JList (map JStr fps))"
    and nonempty: "fps \<noteq> []"
    and fresh: "recent_commit_fingerprints e c limit w = Inr (fps, w1)"
  shows "recent_commits e c limit w = fetch_commit_details e (JList (map JStr fps)) w1
     \<and> (\<forall>commits w2. recent_commits e c limit w = Inr (commits, w2) \<longrightarrow>
          cache_file w2 = cache_file w
          \<and> length (fetched w2) = length (fetched w) + 1 + length fps)"
proof -
  have run: "recent_commits e c limit w = fetch_commit_details e (JList (map JStr fps)) w1"
    unfolding recent_commits_def load old fresh
    using cached nonempty by (simp add: old)
  have effect: "\<forall>commits w2. fetch_commit_details e (JList (map JStr fps)) w1 = Inr (commits, w2) \<longrightarrow>
          cache_file w2 = cache_file w
          \<and> length (fetched w2) = length (fetched w) + 1 + length fps"
  proof (intro allI impI)
    fix commits w2
    assume "fetch_commit_details e (JList (map JStr fps)) w1 = Inr (commits, w2)"
    then have "fetch_commit_details_loop e (map JStr fps) [] w1 = Inr (commits, w2)"
      by (simp add: fetch_commit_details_def)
    from fetch_commit_details_loop_effect [OF this] recent_commit_fingerprints_effect [OF fresh]
    show "cache_file w2 = cache_file w
          \<and> length (fetched w2) = length (fetched w) + 1 + length fps"
      by simp
  qed
  show ?thesis
    unfolding run using effect by blast
qed

theorem unchanged_fingerprints_refetch_witness:
  "load_cache cached_world = Inr (Some cached_doc)
   \<and> truthy (get_recent_commits (Some cached_doc))
   \<and> py_item (get_recent_commits (Some cached_doc)) ''fingerprints''
       = Inr (JList (map JStr [''o/r@abc1234'']))
   \<and> recent_commit_fingerprints push_env plain_config 3 cached_world
       = Inr ([''o/r@abc1234''], cached_world\<lparr>ticks := 1, fetched := [''/users/u/events'']\<rparr>)
   \<and> recent_commits push_env plain_config 3 cached_world
       = fetch_commit_details push_env (JList (map JStr [''o/r@abc1234'']))
           (cached_world\<lparr>ticks := 1, fetched := [''/users/u/events'']\<rparr>)
   \<and> recent_commits push_env plain_config 3 cached_world
       = Inr ([JObj [(''repo'', JStr ''o/r''), (''message'', JStr ''Fix parser''),
                     (''author'', JStr ''U''), (''date'', JStr ''2024-01-02T10:00:00Z''),
                     (''sha'', JStr ''abc1234'')]],
              cached_world\<lparr>ticks := 2,
                           fetched := [''/users/u/events'', ''/repos/o/r/commits/abc1234'']\<rparr>)
   \<and> cache_file (cached_world\<lparr>ticks := 2,
                     fetched := [''/users/u/events'', ''/repos/o/r/commits/abc1234'']\<rparr>)
       = cache_file cached_world
   \<and> length (fetched (cached_world\<lparr>ticks := 2,
                     fetched := [''/users/u/events'', ''/repos/o/r/commits/abc1234'']\<rparr>))
       = length (fetched cached_world) + 1 + length [''o/r@abc1234'']"
proof -
  have run: "recent_commits push_env plain_config 3 cached_world
       = Inr ([JObj [(''repo'', JStr ''o/r''), (''message'', JStr ''Fix parser''),
                     (''author'', JStr ''U''), (''date'', JStr ''2024-01-02T10:00:00Z''),
                     (''sha'', JStr ''abc1234'')]],
              cached_world\<lparr>ticks := 2,
                           fetched := [''/users/u/events'', ''/repos/o/r/commits/abc1234'']\<rparr>)"
    by code_simp
  have h1: "load_cache cached_world = Inr (Some cached_doc)"
    by code_simp
  have h2: "truthy (get_recent_commits (Some cached_doc))"
    by code_simp
  have h3: "py_item (get_recent_commits (Some cached_doc)) ''fingerprints''
       = Inr (JList (map JStr [''o/r@abc1234'']))"
    by code_simp
  have h4: "[''o/r@abc1234''] \<noteq> []"
    by simp
  have h5: "recent_commit_fingerprints push_env plain_config 3 cached_world
       = Inr ([''o/r@abc1234''], cached_world\<lparr>ticks := 1, fetched := [''/users/u/events'']\<rparr>)"
    by code_simp
  from unchanged_fingerprints_refetch [OF h1 h2 h3 h4 h5] h1 h2 h3 h5 run
  show ?thesis by blast
qed

text \<open>
  The scenario of the specification: the cache holds \<open>["o/r@abc1234"]\<close> and the
  fresh list is \<open>["o/r@abc1234"]\<close>. The specification has no detail query issued; the
  run issues the query for \<open>/repos/o/r/commits/abc1234\<close> and returns what it gets.
\<close>

theorem unchanged_fingerprints_refetch_counterexample:
  "recent_commits push_env plain_config 3 cached_world
   = Inr ([JObj [(''repo'', JStr ''o/r''), (''message'', JStr ''Fix parser''),
                 (''author'', JStr ''U''), (''date'', JStr ''2024-01-02T10:00:00Z''),
                 (''sha'', JStr ''abc1234'')]],
          cached_world\<lparr>ticks := 2,
                       fetched := [''/users/u/events'', ''/repos/o/r/commits/abc1234'']\<rparr>)"
  by code_simp

section \<open>Lines changed: the warm path\<close>

lemma since_commit_typed:
  assumes reply: "rest_reply e (ticks w) (commit_path (repo, cm)) = Inr (encode_detail cm)"
    and parse: "fromisoformat e (replace_Z (commit_date cm)) = Some (Aware (instant (commit_date cm)))"
  shows "\<exists>w1. since_commit e (Aware si) (encode_event (Push repo cms))
                 (JObj [(''sha'', JStr (commit_sha cm))]) (a, d, n) w
           = Inr ((if si < instant (commit_date cm) \<and> commit_stats cm \<noteq> None
                   then (a + additions_of cm, d + deletions_of cm, max n (commit_date cm))
                   else (a, d, n)), w1)
         \<and> cache_file w1 = cache_file w
         \<and> ticks w1 = Suc (ticks w)
         \<and> fetched w1 = fetched w @ [commit_path (repo, cm)]"
proof -
  define w1 where "w1 = w\<lparr>ticks := Suc (ticks w), fetched := fetched w @ [commit_path (repo, cm)]\<rparr>"
  have repo: "event_repo (encode_event (Push repo cms)) = Inr (JStr repo)"
    by (simp add: event_repo_def encode_event_def)
  have call: "rest_call e (''/repos/'' @ fmt e (JStr repo) @ ''/commits/'' @ fmt e (JStr (commit_sha cm))) w
              = Inr (encode_detail cm, w1)"
    using reply by (simp add: rest_call_def fmt_def commit_path_def w1_def)
  have has: "no_commit (encode_detail cm) = Inr False"
    by (simp add: no_commit_def encode_detail_def)
  have date: "py_item3 (encode_detail cm) ''commit'' ''author'' ''date'' = Inr (JStr (commit_date cm))"
    by (simp add: py_item3_def encode_detail_def)
  have dt: "parse_iso e (JStr (commit_date cm)) = Inr (Aware (instant (commit_date cm)))"
    by (simp add: parse_iso_def parse)
  have run: "since_commit e (Aware si) (encode_event (Push repo cms))
                 (JObj [(''sha'', JStr (commit_sha cm))]) (a, d, n) w
           = Inr ((if si < instant (commit_date cm) \<and> commit_stats cm \<noteq> None
                   then (a + additions_of cm, d + deletions_of cm, max n (commit_date cm))
                   else (a, d, n)), w1)"
  proof (cases "commit_stats cm")
    case None
    then have "py_get (encode_detail cm) ''stats'' JNull = Inr JNull"
      by (simp add: encode_detail_def dict_get_def)
    with call show ?thesis
      unfolding since_commit_def repo
      by (cases "instant (commit_date cm) \<le> si") (simp_all add: has date dt None)
  next
    case (Some ad)
    obtain x y where ad: "ad = (x, y)" by (cases ad)
    have st: "py_get (encode_detail cm) ''stats'' JNull
              = Inr (JObj [(''total'', JInt (x + y)), (''additions'', JInt x), (''deletions'', JInt y)])"
      by (simp add: encode_detail_def dict_get_def Some ad)
    have mx: "(if n < commit_date cm then commit_date cm else n) = max n (commit_date cm)"
      by (auto simp: max_def)
    from call show ?thesis
      unfolding since_commit_def repo
      by (cases "instant (commit_date cm) \<le> si")
         (simp_all add: has date dt st Some ad dict_get_def int_add_def additions_of_def
            deletions_of_def mx not_less)
  qed
  show ?thesis
    using run by (intro exI [of _ w1]) (simp add: w1_def)
qed


lemma since_commits_typed:
  assumes "\<forall>t. \<forall>cm\<in>set cms1. rest_reply e t (commit_path (repo, cm)) = Inr (encode_detail cm)"
    and "\<forall>cm\<in>set cms1. fromisoformat e (replace_Z (commit_date cm))
                          = Some (Aware (instant (commit_date cm)))"
  shows "\<exists>w1. since_commits e (Aware (instant since)) (encode_event (Push repo cms))
                 (map (\<lambda>cm. JObj [(''sha'', JStr (commit_sha cm))]) cms1) (a, d, n) w
           = Inr ((a + sum_list (map additions_of (newer_with_stats instant since cms1)),
                   d + sum_list (map deletions_of (newer_with_stats instant since cms1)),
                   fold max (map commit_date (newer_with_stats instant since cms1)) n), w1)
         \<and> cache_file w1 = cache_file w
         \<and> fetched w1 = fetched w @ map (\<lambda>cm. commit_path (repo, cm)) cms1"
  using assms
proof (induction cms1 arbitrary: a d n w)
  case Nil
  show ?case by (simp add: newer_with_stats_def)
next
  case (Cons cm cms1)
  from Cons.prems have reply: "rest_reply e (ticks w) (commit_path (repo, cm)) = Inr (encode_detail cm)"
    and parse: "fromisoformat e (replace_Z (commit_date cm)) = Some (Aware (instant (commit_date cm)))"
    by simp_all
  define counts where
    "counts \<longleftrightarrow> instant since < instant (commit_date cm) \<and> commit_stats cm \<noteq> None"
  from since_commit_typed
         [where instant = instant and si = "instant since" and cms = cms and a = a and d = d
            and n = n, OF reply parse]
  obtain w0 where one: "since_commit e (Aware (instant since)) (encode_event (Push repo cms))
                 (JObj [(''sha'', JStr (commit_sha cm))]) (a, d, n) w
           = Inr ((if counts
                   then (a + additions_of cm, d + deletions_of cm, max n (commit_date cm))
                   else (a, d, n)), w0)"
    and f0: "cache_file w0 = cache_file w"
    and p0: "fetched w0 = fetched w @ [commit_path (repo, cm)]"
    unfolding counts_def by blast
  from Cons.prems have rest1: "\<forall>t. \<forall>cm\<in>set cms1. rest_reply e t (commit_path (repo, cm)) = Inr (encode_detail cm)"
    and rest2: "\<forall>cm\<in>set cms1. fromisoformat e (replace_Z (commit_date cm))
                          = Some (Aware (instant (commit_date cm)))"
    by simp_all
  have keep: "newer_with_stats instant since (cm # cms1)
              = (if counts then [cm] else []) @ newer_with_stats instant since cms1"
    by (simp add: newer_with_stats_def counts_def)
  show ?case
  proof (cases counts)
    case True
    from Cons.IH [OF rest1 rest2, of "a + additions_of cm" "d + deletions_of cm"
                    "max n (commit_date cm)" w0]
    obtain w1 where run: "since_commits e (Aware (instant since)) (encode_event (Push repo cms))
                 (map (\<lambda>cm. JObj [(''sha'', JStr (commit_sha cm))]) cms1)
                 (a + additions_of cm, d + deletions_of cm, max n (commit_date cm)) w0
           = Inr ((a + additions_of cm + sum_list (map additions_of (newer_with_stats instant since cms1)),
                   d + deletions_of cm + sum_list (map deletions_of (newer_with_stats instant since cms1)),
                   fold max (map commit_date (newer_with_stats instant since cms1))
                     (max n (commit_date cm))), w1)"
      and f1: "cache_file w1 = cache_file w0"
      and p1: "fetched w1 = fetched w0 @ map (\<lambda>cm. commit_path (repo, cm)) cms1"
      by blast
    from one run True f0 f1 p0 p1 show ?thesis
      by (simp add: keep max.commute add.assoc)
  next
    case False
    from Cons.IH [OF rest1 rest2, of a d n w0]
    obtain w1 where run: "since_commits e (Aware (instant since)) (encode_event (Push repo cms))
                 (map (\<lambda>cm. JObj [(''sha'', JStr (commit_sha cm))]) cms1) (a, d, n) w0
           = Inr ((a + sum_list (map additions_of (newer_with_stats instant since cms1)),
                   d + sum_list (map deletions_of (newer_with_stats instant since cms1)),
                   fold max (map commit_date (newer_with_stats instant since cms1)) n), w1)"
      and f1: "cache_file w1 = cache_file w0"
      and p1: "fetched w1 = fetched w0 @ map (\<lambda>cm. commit_path (repo, cm)) cms1"
      by blast
    from one run False f0 f1 p0 p1 show ?thesis
      by (simp add: keep)
  qed
qed


lemma pushed_commits_Cons:
  "pushed_commits (ev # evs)
   = (case ev of Push repo cms \<Rightarrow> map (Pair repo) cms | Other ty \<Rightarrow> []) @ pushed_commits evs"
  by (simp add: pushed_commits_def)

lemma newer_with_stats_append:
  "newer_with_stats instant since (xs @ ys)
   = newer_with_stats instant since xs @ newer_with_stats instant since ys"
  by (simp add: newer_with_stats_def)

lemma since_event_typed:
  assumes "\<forall>t. \<forall>rc\<in>set (pushed_commits [ev]). rest_reply e t (commit_path rc) = Inr (encode_detail (snd rc))"
    and "\<forall>rc\<in>set (pushed_commits [ev]). fromisoformat e (replace_Z (commit_date (snd rc)))
                          = Some (Aware (instant (commit_date (snd rc))))"
  shows "\<exists>w1. since_event e (Aware (instant since)) (encode_event ev) (a, d, n) w
           = Inr ((a + sum_list (map additions_of (accumulated instant since [ev])),
                   d + sum_list (map deletions_of (accumulated instant since [ev])),
                   fold max (map commit_date (accumulated instant since [ev])) n), w1)
         \<and> cache_file w1 = cache_file w
         \<and> fetched w1 = fetched w @ map commit_path (pushed_commits [ev])"
proof (cases ev)
  case (Push repo cms)
  have r1: "\<forall>t. \<forall>cm\<in>set cms. rest_reply e t (commit_path (repo, cm)) = Inr (encode_detail cm)"
    using assms(1) by (simp add: Push pushed_commits_def)
  have r2: "\<forall>cm\<in>set cms. fromisoformat e (replace_Z (commit_date cm))
                          = Some (Aware (instant (commit_date cm)))"
    using assms(2) by (simp add: Push pushed_commits_def)
  have unfold: "since_event e (Aware (instant since)) (encode_event ev) (a, d, n) w
        = since_commits e (Aware (instant since)) (encode_event (Push repo cms))
            (map (\<lambda>cm. JObj [(''sha'', JStr (commit_sha cm))]) cms) (a, d, n) w"
    by (simp add: since_event_def Push encode_event_def dict_get_def)
  have acc: "accumulated instant since [ev] = newer_with_stats instant since cms"
    by (simp add: accumulated_def pushed_commits_def Push comp_def)
  have paths: "map commit_path (pushed_commits [ev]) = map (\<lambda>cm. commit_path (repo, cm)) cms"
    by (simp add: pushed_commits_def Push comp_def)
  from since_commits_typed [OF r1 r2, of since cms a d n w]
  show ?thesis
    unfolding unfold acc paths .
next
  case (Other ty)
  have "since_event e (Aware (instant since)) (encode_event ev) (a, d, n) w = Inr ((a, d, n), w)"
    by (simp add: since_event_def Other encode_event_def dict_get_def)
  then show ?thesis
    by (simp add: accumulated_def pushed_commits_def Other newer_with_stats_def)
qed

lemma accumulated_Cons:
  "accumulated instant since (ev # evs)
   = accumulated instant since [ev] @ accumulated instant since evs"
  by (simp add: accumulated_def pushed_commits_def newer_with_stats_def)

lemma since_events_typed:
  assumes "\<forall>t. \<forall>rc\<in>set (pushed_commits evs). rest_reply e t (commit_path rc) = Inr (encode_detail (snd rc))"
    and "\<forall>rc\<in>set (pushed_commits evs). fromisoformat e (replace_Z (commit_date (snd rc)))
                          = Some (Aware (instant (commit_date (snd rc))))"
  shows "\<exists>w1. since_events e (Aware (instant since)) (map encode_event evs) (a, d, n) w
           = Inr ((a + sum_list (map additions_of (accumulated instant since evs)),
                   d + sum_list (map deletions_of (accumulated instant since evs)),
                   fold max (map commit_date (accumulated instant since evs)) n), w1)
         \<and> cache_file w1 = cache_file w
         \<and> fetched w1 = fetched w @ map commit_path (pushed_commits evs)"
  using assms
proof (induction evs arbitrary: a d n w)
  case Nil
  show ?case by (simp add: accumulated_def pushed_commits_def newer_with_stats_def)
next
  case (Cons ev evs)
  have split: "pushed_commits (ev # evs) = pushed_commits [ev] @ pushed_commits evs"
    by (simp add: pushed_commits_def)
  from Cons.prems have h1: "\<forall>t. \<forall>rc\<in>set (pushed_commits [ev]). rest_reply e t (commit_path rc) = Inr (encode_detail (snd rc))"
    and h2: "\<forall>rc\<in>set (pushed_commits [ev]). fromisoformat e (replace_Z (commit_date (snd rc)))
                          = Some (Aware (instant (commit_date (snd rc))))"
    and t1: "\<forall>t. \<forall>rc\<in>set (pushed_commits evs). rest_reply e t (commit_path rc) = Inr (encode_detail (snd rc))"
    and t2: "\<forall>rc\<in>set (pushed_commits evs). fromisoformat e (replace_Z (commit_date (snd rc)))
                          = Some (Aware (instant (commit_date (snd rc))))"
    unfolding split by simp_all
  define a0 where "a0 = a + sum_list (map additions_of (accumulated instant since [ev]))"
  define d0 where "d0 = d + sum_list (map deletions_of (accumulated instant since [ev]))"
  define n0 where "n0 = fold max (map commit_date (accumulated instant since [ev])) n"
  from since_event_typed [OF h1 h2, of since a d n w]
  obtain w0 where one: "since_event e (Aware (instant since)) (encode_event ev) (a, d, n) w
                        = Inr ((a0, d0, n0), w0)"
    and f0: "cache_file w0 = cache_file w"
    and p0: "fetched w0 = fetched w @ map commit_path (pushed_commits [ev])"
    unfolding a0_def d0_def n0_def by blast
  from Cons.IH [OF t1 t2, of a0 d0 n0 w0]
  obtain w1 where run: "since_events e (Aware (instant since)) (map encode_event evs) (a0, d0, n0) w0
           = Inr ((a0 + sum_list (map additions_of (accumulated instant since evs)),
                   d0 + sum_list (map deletions_of (accumulated instant since evs)),
                   fold max (map commit_date (accumulated instant since evs)) n0), w1)"
    and f1: "cache_file w1 = cache_file w0"
    and p1: "fetched w1 = fetched w0 @ map commit_path (pushed_commits evs)"
    by blast
  have "since_events e (Aware (instant since)) (map encode_event (ev # evs)) (a, d, n) w
        = Inr ((a0 + sum_list (map additions_of (accumulated instant since evs)),
                d0 + sum_list (map deletions_of (accumulated instant since evs)),
                fold max (map commit_date (accumulated instant since evs)) n0), w1)"
    using one run by simp
  moreover have "a0 + sum_list (map additions_of (accumulated instant since evs))
                 = a + sum_list (map additions_of (accumulated instant since (ev # evs)))"
    by (simp add: a0_def accumulated_Cons [of instant since ev evs])
  moreover have "d0 + sum_list (map deletions_of (accumulated instant since evs))
                 = d + sum_list (map deletions_of (accumulated instant since (ev # evs)))"
    by (simp add: d0_def accumulated_Cons [of instant since ev evs])
  moreover have "fold max (map commit_date (accumulated instant since evs)) n0
                 = fold max (map commit_date (accumulated instant since (ev # evs))) n"
    by (simp add: n0_def accumulated_Cons [of instant since ev evs])
  moreover have "fetched w1 = fetched w @ map commit_path (pushed_commits (ev # evs))"
    using p0 p1 by (simp add: split)
  moreover have "cache_file w1 = cache_file w"
    using f0 f1 by simp
  ultimately show ?case by simp
qed


lemma lines_changed_since_typed:
  assumes events: "rest_reply e (ticks w) (''/users/'' @ username c @ ''/events'')
                   = Inr (JList (map encode_event evs))"
    and details: "\<forall>t. \<forall>rc\<in>set (pushed_commits evs).
                    rest_reply e t (commit_path rc) = Inr (encode_detail (snd rc))"
    and dates: "\<forall>rc\<in>set (pushed_commits evs).
                  fromisoformat e (replace_Z (commit_date (snd rc)))
                  = Some (Aware (instant (commit_date (snd rc))))"
    and watermark: "fromisoformat e (replace_Z since) = Some (Aware (instant since))"
  shows "\<exists>w1. lines_changed_since e c (JStr since) w
           = Inr ((sum_list (map additions_of (accumulated instant since evs)),
                   sum_list (map deletions_of (accumulated instant since evs)),
                   newest_date since (accumulated instant since evs)), w1)
         \<and> cache_file w1 = cache_file w
         \<and> fetched w1 = fetched w @ (''/users/'' @ username c @ ''/events'')
                           # map commit_path (pushed_commits evs)"
proof -
  define w0 where "w0 = w\<lparr>ticks := Suc (ticks w),
                           fetched := fetched w @ [''/users/'' @ username c @ ''/events'']\<rparr>"
  have call: "rest_call e (''/users/'' @ username c @ ''/events'') w
              = Inr (JList (map encode_event evs), w0)"
    using events by (simp add: rest_call_def w0_def)
  have dt: "parse_iso e (JStr since) = Inr (Aware (instant since))"
    by (simp add: parse_iso_def watermark)
  from since_events_typed [OF details dates, of since 0 0 since w0]
  obtain w1 where run: "since_events e (Aware (instant since)) (map encode_event evs) (0, 0, since) w0
           = Inr ((0 + sum_list (map additions_of (accumulated instant since evs)),
                   0 + sum_list (map deletions_of (accumulated instant since evs)),
                   fold max (map commit_date (accumulated instant since evs)) since), w1)"
    and f1: "cache_file w1 = cache_file w0"
    and p1: "fetched w1 = fetched w0 @ map commit_path (pushed_commits evs)"
    by blast
  have newest: "fold max (map commit_date (accumulated instant since evs)) since
                = newest_date since (accumulated instant since evs)"
    unfolding newest_date_def by (rule Max.set_eq_fold [symmetric])
  have "lines_changed_since e c (JStr since) w
           = Inr ((sum_list (map additions_of (accumulated instant since evs)),
                   sum_list (map deletions_of (accumulated instant since evs)),
                   newest_date since (accumulated instant since evs)), w1)"
    unfolding lines_changed_since_def dt
    using call run by (simp add: newest)
  with f1 p1 show ?thesis by (simp add: w0_def)
qed

text \<open>
  Claim C2, as amended. On a warm run the events of the user are fetched, and then the
  detail of every commit of every push event. The commits accumulated are those authored
  after the cached watermark whose detail has statistics. If their additions and their
  deletions both sum to zero (no such commit, or only commits that change no line), the
  cached totals are returned and the cache file, with its watermark, stays as it was.
  Otherwise the sums are added to the cached totals, and the file written holds the new
  totals and, as the watermark, the greatest text in string order among the cached
  watermark and the authored dates of the commits accumulated.
\<close>

theorem warm_run_delta:
  assumes load: "load_cache w = Inr cache"
    and keys: "distinct (map fst (case cache of None \<Rightarrow> [] | Some doc \<Rightarrow> doc))"
    and warm: "truthy (get_lines_changed cache)"
    and cached_additions: "py_item (get_lines_changed cache) ''additions'' = Inr (JInt A)"
    and cached_deletions: "py_item (get_lines_changed cache) ''deletions'' = Inr (JInt D)"
    and cached_watermark: "py_item (get_lines_changed cache) ''last_commit_date'' = Inr (JStr since)"
    and events: "rest_reply e (ticks w) (''/users/'' @ username c @ ''/events'')
                   = Inr (JList (map encode_event evs))"
    and details: "\<forall>t. \<forall>rc\<in>set (pushed_commits evs).
                    rest_reply e t (commit_path rc) = Inr (encode_detail (snd rc))"
    and dates: "\<forall>rc\<in>set (pushed_commits evs).
                  fromisoformat e (replace_Z (commit_date (snd rc)))
                  = Some (Aware (instant (commit_date (snd rc))))"
    and watermark: "fromisoformat e (replace_Z since) = Some (Aware (instant since))"
  shows "(sum_list (map additions_of (accumulated instant since evs)) = 0
          \<and> sum_list (map deletions_of (accumulated instant since evs)) = 0 \<longrightarrow>
           (\<exists>w1. lines_changed e c discovered w = Inr ((JInt A, JInt D), w1)
                \<and> cache_file w1 = cache_file w
                \<and> fetched w1 = fetched w @ (''/users/'' @ username c @ ''/events'')
                                  # map commit_path (pushed_commits evs)))
       \<and> (\<not> (sum_list (map additions_of (accumulated instant since evs)) = 0
              \<and> sum_list (map deletions_of (accumulated instant since evs)) = 0) \<longrightarrow>
           (\<exists>w1 doc. lines_changed e c discovered w
                  = Inr ((JInt (A + sum_list (map additions_of (accumulated instant since evs))),
                          JInt (D + sum_list (map deletions_of (accumulated instant since evs)))), w1)
                \<and> fetched w1 = fetched w @ (''/users/'' @ username c @ ''/events'')
                                  # map commit_path (pushed_commits evs)
                \<and> cache_file w1 = Parsed (JObj doc)
                \<and> map_of doc ''lines_changed''
                    = Some (JObj [(''additions'',
                                   JInt (A + sum_list (map additions_of (accumulated instant since evs)))),
                                  (''deletions'',
                                   JInt (D + sum_list (map deletions_of (accumulated instant since evs)))),
                                  (''last_commit_date'',
                                   JStr (newest_date since (accumulated instant since evs)))])))"
proof -
  define da where "da = sum_list (map additions_of (accumulated instant since evs))"
  define dd where "dd = sum_list (map deletions_of (accumulated instant since evs))"
  define newest where "newest = newest_date since (accumulated instant since evs)"
  define paths where "paths = (''/users/'' @ username c @ ''/events'')
                                  # map commit_path (pushed_commits evs)"
  from lines_changed_since_typed [OF events details dates watermark]
  obtain w1 where since: "lines_changed_since e c (JStr since) w = Inr ((da, dd, newest), w1)"
    and f1: "cache_file w1 = cache_file w"
    and p1: "fetched w1 = fetched w @ paths"
    unfolding da_def dd_def newest_def paths_def by blast
  have same: "da = 0 \<and> dd = 0 \<longrightarrow>
           (\<exists>w1. lines_changed e c discovered w = Inr ((JInt A, JInt D), w1)
                \<and> cache_file w1 = cache_file w \<and> fetched w1 = fetched w @ paths)"
  proof
    assume "da = 0 \<and> dd = 0"
    then have "lines_changed e c discovered w = Inr ((JInt A, JInt D), w1)"
      unfolding lines_changed_def load
      using warm by (simp add: cached_additions cached_deletions cached_watermark since)
    with f1 p1 show "\<exists>w1. lines_changed e c discovered w = Inr ((JInt A, JInt D), w1)
                \<and> cache_file w1 = cache_file w \<and> fetched w1 = fetched w @ paths"
      by blast
  qed
  have grown: "\<not> (da = 0 \<and> dd = 0) \<longrightarrow>
           (\<exists>w1 doc. lines_changed e c discovered w = Inr ((JInt (A + da), JInt (D + dd)), w1)
                \<and> fetched w1 = fetched w @ paths
                \<and> cache_file w1 = Parsed (JObj doc)
                \<and> map_of doc ''lines_changed''
                    = Some (JObj [(''additions'', JInt (A + da)), (''deletions'', JInt (D + dd)),
                                  (''last_commit_date'', JStr newest)]))"
  proof
    assume delta: "\<not> (da = 0 \<and> dd = 0)"
    define doc0 where "doc0 = set_lines_changed cache (JInt (A + da)) (JInt (D + dd)) (JStr newest)"
    define stamp where "stamp = utcnow_isoformat e (ticks w1) @ ''Z''"
    from delta have differ: "(da = 0 \<and> dd = 0) = False" by simp
    have run: "lines_changed e c discovered w
               = Inr ((JInt (A + da), JInt (D + dd)), save_cache e doc0 w1)"
      unfolding lines_changed_def load
      using warm
      by (simp add: cached_additions cached_deletions cached_watermark since py_iadd_def doc0_def
            differ)
    have d: "distinct (map fst doc0)"
      unfolding doc0_def set_lines_changed_def using keys by (rule distinct_update)
    have kept: "map_of doc0 ''lines_changed''
                = Some (JObj [(''additions'', JInt (A + da)), (''deletions'', JInt (D + dd)),
                              (''last_commit_date'', JStr newest)])"
      by (simp add: doc0_def set_lines_changed_def update_conv')
    have written: "cache_file (save_cache e doc0 w1) = Parsed (JObj (payload stamp doc0))"
      by (simp add: save_cache_def utc_now_iso_def stamp_def)
    have paths1: "fetched (save_cache e doc0 w1) = fetched w @ paths"
      by (simp add: save_cache_def utc_now_iso_def p1)
    have "map_of (payload stamp doc0) ''lines_changed''
                = Some (JObj [(''additions'', JInt (A + da)), (''deletions'', JInt (D + dd)),
                              (''last_commit_date'', JStr newest)])"
      by (simp add: map_of_payload [OF d] map_add_def kept)
    with run written paths1
    show "\<exists>w1 doc. lines_changed e c discovered w = Inr ((JInt (A + da), JInt (D + dd)), w1)
                \<and> fetched w1 = fetched w @ paths
                \<and> cache_file w1 = Parsed (JObj doc)
                \<and> map_of doc ''lines_changed''
                    = Some (JObj [(''additions'', JInt (A + da)), (''deletions'', JInt (D + dd)),
                                  (''last_commit_date'', JStr newest)])"
      by blast
  qed
  from same grown show ?thesis
    unfolding da_def dd_def newest_def paths_def by blast
qed

theorem warm_run_delta_witness:
  "load_cache cached_world = Inr (Some cached_doc)
   \<and> truthy (get_lines_changed (Some cached_doc))
   \<and> rest_reply (typed_env week_events) (ticks cached_world)
         (''/users/'' @ username plain_config @ ''/events'')
       = Inr (JList (map encode_event week_events))
   \<and> sum_list (map additions_of (accumulated instant_of ''2024-01-01T00:00:00Z'' week_events)) = 5
   \<and> (\<exists>w1 doc. lines_changed (typed_env week_events) plain_config [] cached_world
                   = Inr ((JInt 13, JInt 5), w1)
        \<and> cache_file w1 = Parsed (JObj doc)
        \<and> map_of doc ''lines_changed''
            = Some (JObj [(''additions'', JInt 13), (''deletions'', JInt 5),
                          (''last_commit_date'', JStr ''2024-01-02T10:00:00Z'')]))
   \<and> sum_list (map additions_of (accumulated instant_of ''2024-01-01T00:00:00Z'' quiet_events)) = 0
   \<and> (\<exists>w1. lines_changed (typed_env quiet_events) plain_config [] cached_world
               = Inr ((JInt 8, JInt 3), w1)
        \<and> cache_file w1 = cache_file cached_world)"
proof -
  have load: "load_cache cached_world = Inr (Some cached_doc)"
    by code_simp
  have keys: "distinct (map fst (case Some cached_doc of None \<Rightarrow> [] | Some doc \<Rightarrow> doc))"
    by (simp add: cached_doc_def)
  have warm: "truthy (get_lines_changed (Some cached_doc))"
    by code_simp
  have ca: "py_item (get_lines_changed (Some cached_doc)) ''additions'' = Inr (JInt 8)"
    by code_simp
  have cd: "py_item (get_lines_changed (Some cached_doc)) ''deletions'' = Inr (JInt 3)"
    by code_simp
  have cw: "py_item (get_lines_changed (Some cached_doc)) ''last_commit_date''
            = Inr (JStr ''2024-01-01T00:00:00Z'')"
    by code_simp
  have ev1: "rest_reply (typed_env week_events) (ticks cached_world)
               (''/users/'' @ username plain_config @ ''/events'')
             = Inr (JList (map encode_event week_events))"
    by (simp add: typed_env_def plain_config_def)
  have de1: "\<forall>t. \<forall>rc\<in>set (pushed_commits week_events).
               rest_reply (typed_env week_events) t (commit_path rc) = Inr (encode_detail (snd rc))"
    by (simp add: typed_env_def week_events_def pushed_commits_def commit_path_def)
  have da1: "\<forall>rc\<in>set (pushed_commits week_events).
               fromisoformat (typed_env week_events) (replace_Z (commit_date (snd rc)))
               = Some (Aware (instant_of (commit_date (snd rc))))"
    by (simp add: typed_env_def week_events_def pushed_commits_def replace_Z_def)
  have wm1: "fromisoformat (typed_env week_events) (replace_Z ''2024-01-01T00:00:00Z'')
             = Some (Aware (instant_of ''2024-01-01T00:00:00Z''))"
    by (simp add: typed_env_def replace_Z_def)
  have sums1: "sum_list (map additions_of (accumulated instant_of ''2024-01-01T00:00:00Z'' week_events)) = 5"
    "sum_list (map deletions_of (accumulated instant_of ''2024-01-01T00:00:00Z'' week_events)) = 2"
    "newest_date ''2024-01-01T00:00:00Z'' (accumulated instant_of ''2024-01-01T00:00:00Z'' week_events)
     = ''2024-01-02T10:00:00Z''"
    by code_simp+
  have ev2: "rest_reply (typed_env quiet_events) (ticks cached_world)
               (''/users/'' @ username plain_config @ ''/events'')
             = Inr (JList (map encode_event quiet_events))"
    by (simp add: typed_env_def plain_config_def)
  have de2: "\<forall>t. \<forall>rc\<in>set (pushed_commits quiet_events).
               rest_reply (typed_env quiet_events) t (commit_path rc) = Inr (encode_detail (snd rc))"
    by (simp add: typed_env_def quiet_events_def pushed_commits_def commit_path_def)
  have da2: "\<forall>rc\<in>set (pushed_commits quiet_events).
               fromisoformat (typed_env quiet_events) (replace_Z (commit_date (snd rc)))
               = Some (Aware (instant_of (commit_date (snd rc))))"
    by (simp add: typed_env_def quiet_events_def pushed_commits_def replace_Z_def)
  have wm2: "fromisoformat (typed_env quiet_events) (replace_Z ''2024-01-01T00:00:00Z'')
             = Some (Aware (instant_of ''2024-01-01T00:00:00Z''))"
    by (simp add: typed_env_def replace_Z_def)
  have sums2: "sum_list (map additions_of (accumulated instant_of ''2024-01-01T00:00:00Z'' quiet_events)) = 0"
    "sum_list (map deletions_of (accumulated instant_of ''2024-01-01T00:00:00Z'' quiet_events)) = 0"
    by code_simp+
  have grown: "\<exists>w1 doc. lines_changed (typed_env week_events) plain_config [] cached_world
                   = Inr ((JInt 13, JInt 5), w1)
        \<and> cache_file w1 = Parsed (JObj doc)
        \<and> map_of doc ''lines_changed''
            = Some (JObj [(''additions'', JInt 13), (''deletions'', JInt 5),
                          (''last_commit_date'', JStr ''2024-01-02T10:00:00Z'')])"
    using warm_run_delta
      [where instant = instant_of and discovered = "[]", OF load keys warm ca cd cw ev1 de1 da1 wm1]
    by (simp add: sums1) blast
  have same: "\<exists>w1. lines_changed (typed_env quiet_events) plain_config [] cached_world
               = Inr ((JInt 8, JInt 3), w1)
        \<and> cache_file w1 = cache_file cached_world"
    using warm_run_delta
      [where instant = instant_of and discovered = "[]", OF load keys warm ca cd cw ev2 de2 da2 wm2]
    by (simp add: sums2) blast
  from load warm ev1 sums1(1) sums2(1) grown same show ?thesis by blast
qed

text \<open>
  The specification has the watermark advanced whenever something new is found. Here
  the only commit pushed is authored after the watermark and is accumulated, with no
  line added or deleted: the run returns the cached totals and writes nothing, so the
  watermark of the cache stays at 2024-01-01 although the commit is of 2024-01-02.
\<close>

theorem warm_run_delta_counterexample:
  "accumulated instant_of ''2024-01-01T00:00:00Z'' quiet_events
     = [\<lparr>commit_sha = ''ddd4444'', commit_date = ''2024-01-02T10:00:00Z'',
         commit_stats = Some (0, 0)\<rparr>]
   \<and> lines_changed (typed_env quiet_events) plain_config [] cached_world
       = Inr ((JInt 8, JInt 3),
              cached_world\<lparr>ticks := 2,
                           fetched := [''/users/u/events'', ''/repos/o/r/commits/ddd4444'']\<rparr>)
   \<and> dict_get cached_doc ''lines_changed'' JNull
       = JObj [(''additions'', JInt 8), (''deletions'', JInt 3),
               (''last_commit_date'', JStr ''2024-01-01T00:00:00Z'')]"
  by code_simp

end
